theory Spec2Isabelle
  imports Complex_Main
begin

section \<open>Adaptive explicit Runge-Kutta integration (adaptive\_rk.py)\<close>

text \<open>
  The development embeds \<^verbatim>\<open>rk_step\<close>, the class \<^verbatim>\<open>RKAdaptiveStepSolver\<close> with its
  methods \<^verbatim>\<open>__init__\<close>, \<^verbatim>\<open>setup\<close>, \<^verbatim>\<open>solve\<close>, \<^verbatim>\<open>_error_norm\<close>, \<^verbatim>\<open>_step\<close>,
  \<^verbatim>\<open>_single_step\<close>, and the two tableau classes \<^verbatim>\<open>RK23\<close> and \<^verbatim>\<open>RK45\<close>.

  Numbers are real numbers: rounding and overflow of the tensor library's floating point
  arithmetic are not modelled. The two places where the source divides by a tolerance
  scale or raises an error norm to a negative power keep the non-finite results that the
  tensor library produces there (see \<open>xreal\<close>). A one-dimensional tensor is a list of
  reals, a two-dimensional one a list of rows of equal length. The exceptions that Python
  and the tensor library raise are values of type \<open>error\<close>; a loop of the source that has
  no bound is a partial function, whose value \<open>None\<close> stands for not returning.
\<close>

subsection \<open>Errors and tensors\<close>

datatype error = TypeError | IndexError | RuntimeError | AttributeError

type_synonym vec = "real list"
type_synonym mat = "real list list"

text \<open>A tensor of arbitrary shape: its shape and its elements in row-major order.\<close>

record tensor =
  shape :: "nat list"
  data :: "real list"

definition numel :: "nat list \<Rightarrow> nat" where
  "numel shp = prod_list shp"

definition wf_tensor :: "tensor \<Rightarrow> bool" where
  "wf_tensor x = (length (data x) = numel (shape x))"

text \<open>\<^verbatim>\<open>y.reshape(shp)\<close> for a flat \<open>y\<close> and a shape without \<open>-1\<close>.\<close>

definition reshape :: "vec \<Rightarrow> nat list \<Rightarrow> error + tensor" where
  "reshape y shp =
     (if length y = numel shp then Inr \<lparr>shape = shp, data = y\<rparr> else Inl RuntimeError)"

text \<open>\<^verbatim>\<open>x.reshape(-1)\<close>.\<close>

definition flatten :: "tensor \<Rightarrow> vec" where
  "flatten x = data x"

text \<open>\<^verbatim>\<open>yt[i]\<close> for a tensor with at least one dimension: the \<open>i\<close>-th slice along the
  first dimension.\<close>

definition tensor_index :: "tensor \<Rightarrow> nat \<Rightarrow> error + tensor" where
  "tensor_index x i =
     (case shape x of
        [] \<Rightarrow> Inl IndexError
      | d # shp \<Rightarrow>
          if i < d
          then Inr \<lparr>shape = shp, data = take (numel shp) (drop (i * numel shp) (data x))\<rparr>
          else Inl IndexError)"

text \<open>Scalar times vector, and \<^verbatim>\<open>-v\<close>.\<close>

definition smul :: "real \<Rightarrow> vec \<Rightarrow> vec" where
  "smul h v = map (\<lambda>x. h * x) v"

definition vneg :: "vec \<Rightarrow> vec" where
  "vneg v = map uminus v"

text \<open>Elementwise addition of two one-dimensional tensors, with the broadcasting of a
  one-element operand; any other mismatch of lengths raises.\<close>

definition tadd :: "vec \<Rightarrow> vec \<Rightarrow> error + vec" where
  "tadd x y =
     (if length x = length y then Inr (map2 (+) x y)
      else if length x = 1 then Inr (map (\<lambda>b. hd x + b) y)
      else if length y = 1 then Inr (map (\<lambda>a. a + hd y) x)
      else Inl RuntimeError)"

text \<open>\<^verbatim>\<open>v.norm()\<close>: the Euclidean norm.\<close>

definition norm2 :: "vec \<Rightarrow> real" where
  "norm2 v = sqrt (sum_list (map (\<lambda>x. x * x) v))"

text \<open>Number of columns of a two-dimensional tensor given by its rows.\<close>

definition ncols :: "mat \<Rightarrow> nat" where
  "ncols K = (case K of [] \<Rightarrow> 0 | r # _ \<Rightarrow> length r)"

text \<open>\<^verbatim>\<open>torch.matmul(rows.T, a)\<close> for \<open>rows\<close> of shape \<open>(m, n)\<close> and \<open>a\<close> of shape \<open>(k,)\<close>:
  the product needs \<open>m = k\<close> and has shape \<open>(n,)\<close>. The number of columns \<open>n\<close> is passed,
  since a slice with no row keeps it.\<close>

definition matmul_T :: "nat \<Rightarrow> mat \<Rightarrow> vec \<Rightarrow> error + vec" where
  "matmul_T n rows a =
     (if length rows = length a
      then Inr (map (\<lambda>j. sum_list (map2 (\<lambda>r c. r ! j * c) rows a)) [0..<n])
      else Inl RuntimeError)"

text \<open>The row that an assignment \<^verbatim>\<open>K[i] = v\<close> stores in a row of \<open>n\<close> elements: \<open>v\<close>
  must have \<open>n\<close> elements, or one element, which is then broadcast.\<close>

definition assign_row :: "nat \<Rightarrow> vec \<Rightarrow> error + vec" where
  "assign_row n v =
     (if length v = n then Inr v
      else if length v = 1 then Inr (replicate n (hd v))
      else Inl RuntimeError)"

text \<open>\<^verbatim>\<open>K[i] = v\<close>: the row index must exist.\<close>

definition set_row :: "mat \<Rightarrow> nat \<Rightarrow> vec \<Rightarrow> error + mat" where
  "set_row K i v =
     (if length K \<le> i then Inl IndexError
      else (case assign_row (ncols K) v of
              Inl e \<Rightarrow> Inl e
            | Inr r \<Rightarrow> Inr (K[i := r])))"

subsection \<open>The single step kernel \<^verbatim>\<open>rk_step\<close>\<close>

type_synonym deriv = "real \<Rightarrow> vec \<Rightarrow> error + vec"

text \<open>The loop \<^verbatim>\<open>for s, (a, c) in enumerate(zip(A[1:], C[1:]), start=1)\<close>, with the stage
  buffer \<open>K\<close> passed and returned.\<close>

fun rk_stages :: "deriv \<Rightarrow> real \<Rightarrow> vec \<Rightarrow> real \<Rightarrow> nat \<Rightarrow> (vec \<times> real) list \<Rightarrow> mat
    \<Rightarrow> error + mat" where
  "rk_stages func t y h s [] K = Inr K"
| "rk_stages func t y h s ((a, c) # acs) K =
     (case matmul_T (ncols K) (take s K) (take s a) of
        Inl e \<Rightarrow> Inl e
      | Inr m \<Rightarrow>
          (case tadd y (smul h m) of
             Inl e \<Rightarrow> Inl e
           | Inr ydy \<Rightarrow>
               (case func (t + c * h) ydy of
                  Inl e \<Rightarrow> Inl e
                | Inr k \<Rightarrow>
                    (case set_row K s k of
                       Inl e \<Rightarrow> Inl e
                     | Inr K' \<Rightarrow> rk_stages func t y h (Suc s) acs K'))))"

text \<open>\<^verbatim>\<open>rk_step(func, t, y, f, h, (A, B, C, K))\<close> returns \<^verbatim>\<open>(ynew, fnew)\<close> and leaves the
  stages in \<open>K\<close>; the model returns the buffer as the third component.\<close>

definition rk_step :: "deriv \<Rightarrow> real \<Rightarrow> vec \<Rightarrow> vec \<Rightarrow> real \<Rightarrow> mat \<times> vec \<times> vec \<times> mat
    \<Rightarrow> error + (vec \<times> vec \<times> mat)" where
  "rk_step func t y f h abck =
     (case abck of (A, B, C, K) \<Rightarrow>
        (case set_row K 0 f of
           Inl e \<Rightarrow> Inl e
         | Inr K0 \<Rightarrow>
             (case rk_stages func t y h 1 (zip (drop 1 A) (drop 1 C)) K0 of
                Inl e \<Rightarrow> Inl e
              | Inr K1 \<Rightarrow>
                  (case matmul_T (ncols K1) (butlast K1) B of
                     Inl e \<Rightarrow> Inl e
                   | Inr m \<Rightarrow>
                       (case tadd y (smul h m) of
                          Inl e \<Rightarrow> Inl e
                        | Inr ynew \<Rightarrow>
                            (case func (t + h) ynew of
                               Inl e \<Rightarrow> Inl e
                             | Inr fnew \<Rightarrow>
                                 (case set_row K1 (length K1 - 1) fnew of
                                    Inl e \<Rightarrow> Inl e
                                  | Inr K2 \<Rightarrow> Inr (ynew, fnew, K2))))))))"

subsection \<open>The solver classes\<close>

text \<open>The class attributes of \<^verbatim>\<open>RKAdaptiveStepSolver\<close>; \<open>None\<close> is Python's \<^verbatim>\<open>None\<close>.\<close>

record rk_class =
  tab_A :: "mat option"
  tab_B :: "vec option"
  tab_C :: "vec option"
  tab_E :: "vec option"
  n_stages :: "nat option"
  error_estimator_order :: "nat option"

definition RKAdaptiveStepSolver :: rk_class where
  "RKAdaptiveStepSolver =
     \<lparr>tab_A = None, tab_B = None, tab_C = None, tab_E = None,
      n_stages = None, error_estimator_order = None\<rparr>"

definition RK23 :: rk_class where
  "RK23 =
     \<lparr>tab_A = Some [[0, 0, 0],
                     [1 / 2, 0, 0],
                     [0, 3 / 4, 0]],
      tab_B = Some [2 / 9, 1 / 3, 4 / 9],
      tab_C = Some [0, 1 / 2, 3 / 4],
      tab_E = Some [5 / 72, - 1 / 12, - 1 / 9, 1 / 8],
      n_stages = Some 3,
      error_estimator_order = Some 2\<rparr>"

definition RK45 :: rk_class where
  "RK45 =
     \<lparr>tab_A = Some [[0, 0, 0, 0, 0],
                     [1 / 5, 0, 0, 0, 0],
                     [3 / 40, 9 / 40, 0, 0, 0],
                     [44 / 45, - 56 / 15, 32 / 9, 0, 0],
                     [19372 / 6561, - 25360 / 2187, 64448 / 6561, - 212 / 729, 0],
                     [9017 / 3168, - 355 / 33, 46732 / 5247, 49 / 176, - 5103 / 18656]],
      tab_B = Some [35 / 384, 0, 500 / 1113, 125 / 192, - 2187 / 6784, 11 / 84],
      tab_C = Some [0, 1 / 5, 3 / 10, 4 / 5, 8 / 9, 1],
      tab_E = Some [- 71 / 57600, 0, 71 / 16695, - 71 / 1920, 17253 / 339200, - 22 / 525,
                    1 / 40],
      n_stages = Some 6,
      error_estimator_order = Some 4\<rparr>"

text \<open>The instance attributes set by \<^verbatim>\<open>__init__\<close>, next to the class of the instance.\<close>

record solver =
  cls :: rk_class
  atol :: real
  rtol :: real
  max_factor :: real
  min_factor :: real
  step_mult :: real
  error_exponent :: real

text \<open>\<^verbatim>\<open>__init__(self, atol, rtol)\<close>. The last assignment adds a float to the class
  attribute \<^verbatim>\<open>error_estimator_order\<close>, which raises \<^verbatim>\<open>TypeError\<close> when that is
  \<^verbatim>\<open>None\<close>.\<close>

definition init :: "rk_class \<Rightarrow> real \<Rightarrow> real \<Rightarrow> error + solver" where
  "init c a r =
     (case error_estimator_order c of
        None \<Rightarrow> Inl TypeError
      | Some k \<Rightarrow>
          Inr \<lparr>cls = c, atol = a, rtol = r, max_factor = 10, min_factor = 0.2,
               step_mult = 0.9, error_exponent = - 1 / (real k + 1)\<rparr>)"

subsection \<open>Non-finite error norms\<close>

text \<open>
  \<^verbatim>\<open>errnorm = self._error_norm(self.K, hstep) / scale\<close> divides a norm by the
  tolerance scale. The tensor library does not raise on a zero divisor: a positive norm
  gives \<^verbatim>\<open>inf\<close> and a zero norm gives \<^verbatim>\<open>nan\<close>. The sign of a zero is not modelled.
\<close>

datatype xreal = Fin real | PInf | NaN

definition xdiv :: "real \<Rightarrow> real \<Rightarrow> xreal" where
  "xdiv e scale = (if scale = 0 then (if e = 0 then NaN else PInf) else Fin (e / scale))"

text \<open>\<^verbatim>\<open>errnorm < 1\<close>: false for \<^verbatim>\<open>inf\<close> and for \<^verbatim>\<open>nan\<close>.\<close>

definition xless1 :: "xreal \<Rightarrow> bool" where
  "xless1 x = (case x of Fin r \<Rightarrow> r < 1 | PInf \<Rightarrow> False | NaN \<Rightarrow> False)"

text \<open>
  The factor of an accepted, non-terminal attempt:
  \<^verbatim>\<open>self.max_factor if errnorm == 0 else min(self.max_factor, self.step_mult * errnorm ** self.error_exponent)\<close>.
  Python's \<^verbatim>\<open>min(a, x)\<close> is \<open>x\<close> if \<open>x < a\<close> and \<open>a\<close> otherwise, so a \<^verbatim>\<open>nan\<close> second
  argument gives \<open>a\<close>. A negative base (possible only with a negative tolerance scale) has
  the power \<^verbatim>\<open>nan\<close>; \<^verbatim>\<open>inf\<close> to a negative power is zero.
\<close>

definition grow_factor :: "solver \<Rightarrow> xreal \<Rightarrow> real" where
  "grow_factor sv errnorm =
     (case errnorm of
        Fin r \<Rightarrow>
          if r = 0 then max_factor sv
          else if r < 0 then max_factor sv
          else min (max_factor sv) (step_mult sv * r powr error_exponent sv)
      | PInf \<Rightarrow> min (max_factor sv) (step_mult sv * 0)
      | NaN \<Rightarrow> max_factor sv)"

text \<open>
  The factor of a rejected attempt:
  \<^verbatim>\<open>max(self.min_factor, self.step_mult * errnorm ** self.error_exponent)\<close>.
  Python's \<^verbatim>\<open>max(a, x)\<close> is \<open>x\<close> if \<open>x > a\<close> and \<open>a\<close> otherwise. A rejected attempt has a
  finite norm that is at least one, or \<^verbatim>\<open>inf\<close>, or \<^verbatim>\<open>nan\<close>.
\<close>

definition shrink_factor :: "solver \<Rightarrow> xreal \<Rightarrow> real" where
  "shrink_factor sv errnorm =
     (case errnorm of
        Fin r \<Rightarrow> max (min_factor sv) (step_mult sv * r powr error_exponent sv)
      | PInf \<Rightarrow> max (min_factor sv) (step_mult sv * 0)
      | NaN \<Rightarrow> min_factor sv)"

subsection \<open>\<^verbatim>\<open>setup\<close>\<close>

text \<open>The method \<^verbatim>\<open>setup\<close> is \<open>solver_setup\<close> here, the name being taken in Isabelle.
  What it stores in the instance, next to the attributes of \<^verbatim>\<open>__init__\<close>.\<close>

record session =
  s_solver :: solver
  s_yshape :: "nat list"
  s_y0 :: vec
  s_ts :: vec
  s_func :: deriv
  s_K :: mat
  s_A :: mat
  s_B :: vec
  s_C :: vec
  s_E :: vec

text \<open>The two lambdas of \<^verbatim>\<open>setup\<close>; \<open>params\<close> stands for the unpacked \<^verbatim>\<open>*params\<close>.\<close>

definition func_forward :: "(real \<Rightarrow> tensor \<Rightarrow> 'p \<Rightarrow> tensor) \<Rightarrow> nat list \<Rightarrow> 'p \<Rightarrow> deriv" where
  "func_forward fcn yshape params t y =
     (case reshape y yshape of
        Inl e \<Rightarrow> Inl e
      | Inr yy \<Rightarrow> Inr (flatten (fcn t yy params)))"

definition func_backward :: "(real \<Rightarrow> tensor \<Rightarrow> 'p \<Rightarrow> tensor) \<Rightarrow> nat list \<Rightarrow> 'p \<Rightarrow> deriv" where
  "func_backward fcn yshape params t y =
     (case reshape y yshape of
        Inl e \<Rightarrow> Inl e
      | Inr yy \<Rightarrow> Inr (flatten (\<lparr>shape = shape (fcn (- t) yy params),
                                   data = vneg (data (fcn (- t) yy params))\<rparr>)))"

text \<open>\<^verbatim>\<open>torch.empty((rows, n))\<close>: the contents are whatever the memory holds, here the
  parameter \<open>mem\<close>.\<close>

definition torch_empty :: "(nat \<Rightarrow> nat \<Rightarrow> real) \<Rightarrow> nat \<Rightarrow> nat \<Rightarrow> mat" where
  "torch_empty mem rows n = map (\<lambda>i. map (mem i) [0..<n]) [0..<rows]"

definition solver_setup :: "solver \<Rightarrow> (nat \<Rightarrow> nat \<Rightarrow> real) \<Rightarrow> (real \<Rightarrow> tensor \<Rightarrow> 'p \<Rightarrow> tensor) \<Rightarrow> vec
    \<Rightarrow> tensor \<Rightarrow> 'p \<Rightarrow> error + session" where
  "solver_setup sv mem fcn tgrid y params =
     (if length tgrid < 2 then Inl IndexError
      else
        let direction = tgrid ! 1 - tgrid ! 0;
            tgrid' = (if direction < 0 then map uminus tgrid else tgrid);
            f = (if direction < 0 then func_backward fcn (shape y) params
                 else func_forward fcn (shape y) params);
            n = numel (shape y)
        in (case n_stages (cls sv) of
              None \<Rightarrow> Inl TypeError
            | Some s \<Rightarrow>
                (case (tab_A (cls sv), tab_B (cls sv), tab_C (cls sv), tab_E (cls sv)) of
                   (Some a, Some b, Some c, Some e) \<Rightarrow>
                     Inr \<lparr>s_solver = sv, s_yshape = shape y, s_y0 = flatten y, s_ts = tgrid',
                          s_func = f, s_K = torch_empty mem (s + 1) n,
                          s_A = a, s_B = b, s_C = c, s_E = e\<rparr>
                 | _ \<Rightarrow> Inl AttributeError)))"

subsection \<open>\<^verbatim>\<open>_error_norm\<close> and the body of the loop of \<^verbatim>\<open>_single_step\<close>\<close>

definition error_norm :: "session \<Rightarrow> mat \<Rightarrow> real \<Rightarrow> error + real" where
  "error_norm ss K h =
     (case matmul_T (ncols K) K (s_E ss) of
        Inl e \<Rightarrow> Inl e
      | Inr v \<Rightarrow> Inr (norm2 (smul h v)))"

text \<open>The values of the local variables at the end of one pass through the body of
  \<^verbatim>\<open>while not accepted\<close>, and the stage buffer.\<close>

record attempt =
  a_t1_achieved :: bool
  a_hstep :: real
  a_tnew :: real
  a_ynew :: vec
  a_fnew :: vec
  a_K :: mat
  a_errnorm :: xreal
  a_accepted :: bool
  a_h :: real

definition single_step_body :: "session \<Rightarrow> vec \<Rightarrow> real \<Rightarrow> vec \<Rightarrow> real \<Rightarrow> mat \<Rightarrow> real \<Rightarrow> bool
    \<Rightarrow> error + attempt" where
  "single_step_body ss f0 t0 y0 t1 K h prev_rejected =
     (let t1_achieved = (t0 + h > t1);
          hstep = (if t1_achieved then t1 - t0 else h);
          tnew = t0 + hstep
      in (case rk_step (s_func ss) t0 y0 f0 hstep (s_A ss, s_B ss, s_C ss, K) of
            Inl e \<Rightarrow> Inl e
          | Inr (ynew, fnew, K') \<Rightarrow>
              (case error_norm ss K' hstep of
                 Inl e \<Rightarrow> Inl e
               | Inr en \<Rightarrow>
                   let scale = atol (s_solver ss)
                         + max (norm2 y0) (norm2 ynew) * rtol (s_solver ss);
                       errnorm = xdiv en scale;
                       accepted = xless1 errnorm;
                       h' = (if accepted \<and> \<not> t1_achieved
                             then h * (let factor = grow_factor (s_solver ss) errnorm
                                       in if prev_rejected then min 1 factor else factor)
                             else if \<not> accepted
                             then hstep * shrink_factor (s_solver ss) errnorm
                             else h)
                   in Inr \<lparr>a_t1_achieved = t1_achieved, a_hstep = hstep, a_tnew = tnew,
                           a_ynew = ynew, a_fnew = fnew, a_K = K', a_errnorm = errnorm,
                           a_accepted = accepted, a_h = h'\<rparr>)))"

subsection \<open>\<^verbatim>\<open>_single_step\<close>, \<^verbatim>\<open>_step\<close> and \<^verbatim>\<open>solve\<close>\<close>

type_synonym rk_state = "vec \<times> real \<times> vec \<times> real"

text \<open>\<^verbatim>\<open>while not accepted\<close>: no bound on the number of passes.\<close>

partial_function (option) single_step_loop ::
    "session \<Rightarrow> vec \<Rightarrow> real \<Rightarrow> vec \<Rightarrow> real \<Rightarrow> mat \<Rightarrow> real \<Rightarrow> bool
     \<Rightarrow> (error + (rk_state \<times> bool \<times> mat)) option" where
  "single_step_loop ss f0 t0 y0 t1 K h prev_rejected =
     (case single_step_body ss f0 t0 y0 t1 K h prev_rejected of
        Inl e \<Rightarrow> Some (Inl e)
      | Inr a \<Rightarrow>
          if a_accepted a
          then Some (Inr ((a_fnew a, a_tnew a, a_ynew a, a_h a), a_t1_achieved a, a_K a))
          else single_step_loop ss f0 t0 y0 t1 (a_K a) (a_h a) True)"

definition single_step :: "session \<Rightarrow> mat \<Rightarrow> rk_state \<Rightarrow> real
    \<Rightarrow> (error + (rk_state \<times> bool \<times> mat)) option" where
  "single_step ss K rk_state t1 =
     (case rk_state of (f0, t0, y0, h) \<Rightarrow> single_step_loop ss f0 t0 y0 t1 K h False)"

text \<open>\<^verbatim>\<open>while not t1_achieved\<close>: no bound either.\<close>

partial_function (option) step :: "session \<Rightarrow> mat \<Rightarrow> rk_state \<Rightarrow> real
    \<Rightarrow> (error + (rk_state \<times> mat)) option" where
  "step ss K rk_state t1 =
     (case single_step ss K rk_state t1 of
        None \<Rightarrow> None
      | Some (Inl e) \<Rightarrow> Some (Inl e)
      | Some (Inr (rk_state', t1_achieved, K')) \<Rightarrow>
          if t1_achieved then Some (Inr (rk_state', K')) else step ss K' rk_state' t1)"

text \<open>The loop \<^verbatim>\<open>for i in range(1, len(ts))\<close> over the remaining grid points; the result
  is the list of the rows \<^verbatim>\<open>yt[1]\<close>, \<^verbatim>\<open>yt[2]\<close>, ..., each stored by \<^verbatim>\<open>yt[i] = rk_state[2]\<close>.\<close>

fun solve_loop :: "session \<Rightarrow> mat \<Rightarrow> rk_state \<Rightarrow> real list \<Rightarrow> (error + vec list) option" where
  "solve_loop ss K rk_state [] = Some (Inr [])"
| "solve_loop ss K rk_state (t1 # rest) =
     (case step ss K rk_state t1 of
        None \<Rightarrow> None
      | Some (Inl e) \<Rightarrow> Some (Inl e)
      | Some (Inr (rk_state', K')) \<Rightarrow>
          (case assign_row (length (s_y0 ss)) (fst (snd (snd rk_state'))) of
             Inl e \<Rightarrow> Some (Inl e)
           | Inr row \<Rightarrow>
               (case solve_loop ss K' rk_state' rest of
                  None \<Rightarrow> None
                | Some (Inl e) \<Rightarrow> Some (Inl e)
                | Some (Inr rows) \<Rightarrow> Some (Inr (row # rows)))))"

text \<open>\<^verbatim>\<open>yt.reshape(-1, *self.yshape)\<close>: the tensor library refuses to infer the first
  dimension when the remaining ones have no element, or do not divide the total.\<close>

definition reshape_rows :: "vec list \<Rightarrow> nat list \<Rightarrow> error + tensor" where
  "reshape_rows yt shp =
     (let total = length (concat yt); m = numel shp
      in if m = 0 then Inl RuntimeError
         else if total mod m \<noteq> 0 then Inl RuntimeError
         else Inr \<lparr>shape = (total div m) # shp, data = concat yt\<rparr>)"

definition solve :: "session \<Rightarrow> (error + tensor) option" where
  "solve ss =
     (case s_ts ss of
        [] \<Rightarrow> Some (Inl IndexError)
      | t0 # rest \<Rightarrow>
          (case s_func ss t0 (s_y0 ss) of
             Inl e \<Rightarrow> Some (Inl e)
           | Inr f0 \<Rightarrow>
               (case rest of
                  [] \<Rightarrow> Some (Inl IndexError)
                | t1 # _ \<Rightarrow>
                    (case solve_loop ss (s_K ss) (f0, t0, s_y0 ss, t1 - t0) rest of
                       None \<Rightarrow> None
                     | Some (Inl e) \<Rightarrow> Some (Inl e)
                     | Some (Inr rows) \<Rightarrow>
                         Some (reshape_rows (s_y0 ss # rows) (s_yshape ss))))))"

text \<open>\<^verbatim>\<open>_rk_adaptive(fcn, ts, y0, params, cls, atol, rtol)\<close>.\<close>

definition rk_adaptive :: "(nat \<Rightarrow> nat \<Rightarrow> real) \<Rightarrow> (real \<Rightarrow> tensor \<Rightarrow> 'p \<Rightarrow> tensor) \<Rightarrow> vec
    \<Rightarrow> tensor \<Rightarrow> 'p \<Rightarrow> rk_class \<Rightarrow> real \<Rightarrow> real \<Rightarrow> (error + tensor) option" where
  "rk_adaptive mem fcn tgrid y params c a r =
     (case init c a r of
        Inl e \<Rightarrow> Some (Inl e)
      | Inr sv \<Rightarrow>
          (case solver_setup sv mem fcn tgrid y params of
             Inl e \<Rightarrow> Some (Inl e)
           | Inr ss \<Rightarrow> solve ss))"

subsection \<open>The configurations that a run of \<^verbatim>\<open>solve\<close> goes through\<close>

text \<open>
  The three nested loops of \<^verbatim>\<open>solve\<close>, \<^verbatim>\<open>_step\<close> and \<^verbatim>\<open>_single_step\<close> as a
  transition system. \<open>reach ss i f0 t0 y0 K h pr\<close> says that a run of \<^verbatim>\<open>solve\<close> on the
  session \<open>ss\<close> comes to the head of the loop \<^verbatim>\<open>while not accepted\<close> with the target
  \<^verbatim>\<open>ts[i]\<close>, the state \<open>f0, t0, y0\<close>, the stage buffer \<open>K\<close>, the proposal \<open>h\<close> and the flag
  \<^verbatim>\<open>prev_rejected = pr\<close>:
  \<^item> \<open>start\<close>: the first pass, from \<^verbatim>\<open>rk_state = (f0, t0, self.y0, h0)\<close> towards \<^verbatim>\<open>ts[1]\<close>;
  \<^item> \<open>rejected\<close>: the attempt is rejected and the loop \<^verbatim>\<open>while not accepted\<close> goes on;
  \<^item> \<open>accepted\<close>: the attempt is accepted and not terminal, so the loop
    \<^verbatim>\<open>while not t1_achieved\<close> calls \<^verbatim>\<open>_single_step\<close> again from the new state;
  \<^item> \<open>next_point\<close>: the attempt is accepted and terminal, \<^verbatim>\<open>yt[i] = rk_state[2]\<close> is
    stored and the loop of \<^verbatim>\<open>solve\<close> goes on to \<^verbatim>\<open>ts[i + 1]\<close>.
  Unlike the functions above it also speaks of runs that do not return.
\<close>

inductive reach :: "session \<Rightarrow> nat \<Rightarrow> vec \<Rightarrow> real \<Rightarrow> vec \<Rightarrow> mat \<Rightarrow> real \<Rightarrow> bool \<Rightarrow> bool" where
  start:
    "s_ts ss = t0 # t1 # rest \<Longrightarrow> s_func ss t0 (s_y0 ss) = Inr f0 \<Longrightarrow>
     reach ss 1 f0 t0 (s_y0 ss) (s_K ss) (t1 - t0) False"
| rejected:
    "reach ss i f0 t0 y0 K h pr \<Longrightarrow>
     single_step_body ss f0 t0 y0 (s_ts ss ! i) K h pr = Inr a \<Longrightarrow> \<not> a_accepted a \<Longrightarrow>
     reach ss i f0 t0 y0 (a_K a) (a_h a) True"
| accepted:
    "reach ss i f0 t0 y0 K h pr \<Longrightarrow>
     single_step_body ss f0 t0 y0 (s_ts ss ! i) K h pr = Inr a \<Longrightarrow> a_accepted a \<Longrightarrow>
     \<not> a_t1_achieved a \<Longrightarrow>
     reach ss i (a_fnew a) (a_tnew a) (a_ynew a) (a_K a) (a_h a) False"
| next_point:
    "reach ss i f0 t0 y0 K h pr \<Longrightarrow>
     single_step_body ss f0 t0 y0 (s_ts ss ! i) K h pr = Inr a \<Longrightarrow> a_accepted a \<Longrightarrow>
     a_t1_achieved a \<Longrightarrow> assign_row (length (s_y0 ss)) (a_ynew a) = Inr row \<Longrightarrow>
     Suc i < length (s_ts ss) \<Longrightarrow>
     reach ss (Suc i) (a_fnew a) (a_tnew a) (a_ynew a) (a_K a) (a_h a) False"


subsection \<open>The shape check of a tableau\<close>

definition mat_shape :: "mat \<Rightarrow> nat \<times> nat" where
  "mat_shape M = (length M, ncols M)"

text \<open>Row \<open>i\<close> is zero from column \<open>i\<close> on.\<close>

definition strictly_lower :: "mat \<Rightarrow> bool" where
  "strictly_lower M =
     list_all (\<lambda>(i, row). list_all (\<lambda>x. x = 0) (drop i row)) (enumerate 0 M)"

definition tableau_shape_check :: "rk_class \<Rightarrow> bool" where
  "tableau_shape_check c =
     (case (tab_A c, tab_B c, tab_C c, tab_E c, n_stages c) of
        (Some a, Some b, Some cc, Some e, Some s) \<Rightarrow>
          mat_shape a = (s, s) \<and> strictly_lower a \<and> length b = s \<and> length cc = s
          \<and> length e = s + 1 \<and> take 1 cc = [0]
      | _ \<Rightarrow> False)"

subsection \<open>Example problems\<close>

text \<open>A forcing term that jumps from 0 to 72 after \<open>t = 1.9\<close>, shaped like \<open>y\<close>.\<close>

definition fcn_jump :: "real \<Rightarrow> tensor \<Rightarrow> unit \<Rightarrow> tensor" where
  "fcn_jump t y p =
     \<lparr>shape = shape y, data = map (\<lambda>_. if t > 19 / 10 then 72 else 0) (data y)\<rparr>"

text \<open>\<^verbatim>\<open>RK23(atol=18, rtol=0)\<close> set up for \<open>fcn_jump\<close> on the grid \<open>[0, 2]\<close> from
  \<open>y0 = [0]\<close>, with a zeroed stage buffer.\<close>

definition jump_session :: session where
  "jump_session =
     projr (solver_setup (projr (init RK23 18 0)) (\<lambda>i j. 0) fcn_jump [0, 2]
       \<lparr>shape = [1], data = [0]\<rparr> ())"

text \<open>The derivative \<open>t\<close>, shaped like \<open>y\<close>.\<close>

definition fcn_lin :: "real \<Rightarrow> tensor \<Rightarrow> unit \<Rightarrow> tensor" where
  "fcn_lin t y p = \<lparr>shape = shape y, data = map (\<lambda>_. t) (data y)\<rparr>"

text \<open>\<^verbatim>\<open>RK23(atol=1e-8, rtol=1e-5)\<close> set up for \<open>fcn_lin\<close> on a grid from \<open>y0 = [5]\<close>,
  with a zeroed stage buffer.\<close>

definition lin_session :: "vec \<Rightarrow> session" where
  "lin_session tgrid =
     projr (solver_setup (projr (init RK23 (1 / 10 ^ 8) (1 / 10 ^ 5))) (\<lambda>i j. 0) fcn_lin tgrid
       \<lparr>shape = [1], data = [5]\<rparr> ())"

text \<open>The derivative \<open>-y\<close> of the doctests.\<close>

definition fcn_decay :: "real \<Rightarrow> tensor \<Rightarrow> unit \<Rightarrow> tensor" where
  "fcn_decay t y p = \<lparr>shape = shape y, data = map uminus (data y)\<rparr>"

text \<open>\<^verbatim>\<open>RK23(atol=0, rtol=1e-5)\<close> set up for \<open>fcn_decay\<close> on the grid \<open>[0, 1]\<close> from
  \<open>y0 = [0]\<close>, with a zeroed stage buffer.\<close>

definition decay_session :: session where
  "decay_session =
     projr (solver_setup (projr (init RK23 0 (1 / 10 ^ 5))) (\<lambda>i j. 0) fcn_decay [0, 1]
       \<lparr>shape = [1], data = [0]\<rparr> ())"

section \<open>Properties\<close>

subsection \<open>Tableau constants\<close>

text \<open>
  Claim C1. For each registered scheme the tableau is to have a strictly lower-triangular
  \<open>A\<close> of shape \<open>(s, s)\<close>, \<open>B\<close> and \<open>C\<close> of length \<open>s\<close>, \<open>E\<close> of length \<open>s + 1\<close> and
  \<open>C[0] = 0\<close>. \<^verbatim>\<open>RK23\<close> passes this check with \<open>s = 3\<close>. \<^verbatim>\<open>RK45\<close> declares six stages
  and a matrix \<open>A\<close> of six rows of five entries, so its shape is \<open>(6, 5)\<close> and the check
  fails; the rows are zero from the diagonal on and the lengths of \<open>B\<close>, \<open>C\<close>, \<open>E\<close> and
  the first node are as required.
\<close>

theorem RK45_tableau_shape:
  "tableau_shape_check RK23
   \<and> \<not> tableau_shape_check RK45
   \<and> n_stages RK45 = Some 6
   \<and> map_option mat_shape (tab_A RK45) = Some (6, 5)
   \<and> map_option strictly_lower (tab_A RK45) = Some True
   \<and> map_option length (tab_B RK45) = Some 6
   \<and> map_option length (tab_C RK45) = Some 6
   \<and> map_option length (tab_E RK45) = Some 7
   \<and> map_option (take 1) (tab_C RK45) = Some [0]"
  by (simp add: tableau_shape_check_def RK23_def RK45_def mat_shape_def ncols_def
      strictly_lower_def enumerate_eq_zip upt_rec)

subsection \<open>Construction\<close>

text \<open>
  Claim C10. Constructing the base class \<^verbatim>\<open>RKAdaptiveStepSolver(atol, rtol)\<close> raises
  for every \<open>atol\<close> and \<open>rtol\<close>: the error exponent is computed from the class attribute
  \<^verbatim>\<open>error_estimator_order\<close>, which is \<^verbatim>\<open>None\<close> there. \<^verbatim>\<open>RK23\<close> and \<^verbatim>\<open>RK45\<close> set the
  order to 2 and 4 and are constructed, with the exponents \<open>-1/3\<close> and \<open>-1/5\<close>.
\<close>

theorem init_base_class_raises:
  "init RKAdaptiveStepSolver a r = Inl TypeError
   \<and> error_estimator_order RKAdaptiveStepSolver = None
   \<and> (\<exists>sv. init RK23 a r = Inr sv \<and> error_exponent sv = - 1 / 3 \<and> atol sv = a \<and> rtol sv = r)
   \<and> (\<exists>sv. init RK45 a r = Inr sv \<and> error_exponent sv = - 1 / 5 \<and> atol sv = a \<and> rtol sv = r)"
  by (simp add: init_def RKAdaptiveStepSolver_def RK23_def RK45_def)

subsection \<open>Rows and stages\<close>

lemma assign_row_length: "assign_row n v = Inr r \<Longrightarrow> length r = n"
  by (auto simp: assign_row_def split: if_splits)

lemma set_row_Inr:
  assumes "set_row K i v = Inr K'"
  shows "i < length K \<and> (\<exists>r. assign_row (ncols K) v = Inr r \<and> K' = K[i := r])"
  using assms by (auto simp: set_row_def split: if_splits sum.splits)

lemma ncols_update: "length r = ncols K \<Longrightarrow> ncols (K[i := r]) = ncols K"
  by (cases K; cases i) (auto simp: ncols_def)

lemma set_row_props:
  assumes "set_row K i v = Inr K'"
  shows "length K' = length K" "ncols K' = ncols K" "i < length K"
    "assign_row (ncols K) v = Inr (K' ! i)" "\<And>j. j \<noteq> i \<Longrightarrow> K' ! j = K ! j"
  using set_row_Inr[OF assms] by (auto simp: ncols_update assign_row_length)

lemma take_eq_if_nth:
  assumes "length xs = length ys" "\<And>j. j < i \<Longrightarrow> xs ! j = ys ! j"
  shows "take i xs = take i ys"
  using assms by (intro nth_equalityI) auto

lemma rk_stages_props:
  assumes "rk_stages func t y h s acs K = Inr K'"
  shows "length K' = length K \<and> ncols K' = ncols K
    \<and> (\<forall>i. i < s \<or> s + length acs \<le> i \<longrightarrow> K' ! i = K ! i)
    \<and> (\<forall>j < length acs. \<exists>m ydy k.
          matmul_T (ncols K) (take (s + j) K') (take (s + j) (fst (acs ! j))) = Inr m
          \<and> tadd y (smul h m) = Inr ydy
          \<and> func (t + snd (acs ! j) * h) ydy = Inr k
          \<and> assign_row (ncols K) k = Inr (K' ! (s + j)))"
  using assms
proof (induction acs arbitrary: s K)
  case Nil
  then show ?case by simp
next
  case (Cons ac acs)
  obtain a c where ac: "ac = (a, c)" by (cases ac)
  from Cons.prems ac obtain m ydy k K1 where
    m: "matmul_T (ncols K) (take s K) (take s a) = Inr m" and
    ydy: "tadd y (smul h m) = Inr ydy" and
    k: "func (t + c * h) ydy = Inr k" and
    K1: "set_row K s k = Inr K1" and
    rec: "rk_stages func t y h (Suc s) acs K1 = Inr K'"
    by (auto split: sum.splits)
  note sr = set_row_props[OF K1]
  from Cons.IH[OF rec] have
    len: "length K' = length K1" and nc: "ncols K' = ncols K1" and
    same: "\<And>i. i < Suc s \<or> Suc s + length acs \<le> i \<Longrightarrow> K' ! i = K1 ! i" and
    st: "\<And>j. j < length acs \<Longrightarrow> \<exists>m ydy k.
          matmul_T (ncols K1) (take (Suc s + j) K') (take (Suc s + j) (fst (acs ! j))) = Inr m
          \<and> tadd y (smul h m) = Inr ydy
          \<and> func (t + snd (acs ! j) * h) ydy = Inr k
          \<and> assign_row (ncols K1) k = Inr (K' ! (Suc s + j))"
    by blast+
  have tk: "take s K' = take s K"
    by (rule take_eq_if_nth) (use len sr same in auto)
  have "length K' = length K" "ncols K' = ncols K" using len nc sr by auto
  moreover have "\<forall>i. i < s \<or> s + length (ac # acs) \<le> i \<longrightarrow> K' ! i = K ! i"
    using same sr(5) by auto
  moreover have "\<forall>j < length (ac # acs). \<exists>m ydy k.
          matmul_T (ncols K) (take (s + j) K') (take (s + j) (fst ((ac # acs) ! j))) = Inr m
          \<and> tadd y (smul h m) = Inr ydy
          \<and> func (t + snd ((ac # acs) ! j) * h) ydy = Inr k
          \<and> assign_row (ncols K) k = Inr (K' ! (s + j))"
  proof (intro allI impI)
    fix j assume j: "j < length (ac # acs)"
    show "\<exists>m ydy k.
          matmul_T (ncols K) (take (s + j) K') (take (s + j) (fst ((ac # acs) ! j))) = Inr m
          \<and> tadd y (smul h m) = Inr ydy
          \<and> func (t + snd ((ac # acs) ! j) * h) ydy = Inr k
          \<and> assign_row (ncols K) k = Inr (K' ! (s + j))"
    proof (cases j)
      case 0
      have "K' ! s = K1 ! s" using same by simp
      then show ?thesis using 0 m ydy k sr(4) tk ac by auto
    next
      case (Suc j')
      then show ?thesis using st[of j'] j sr(2) by auto
    qed
  qed
  ultimately show ?case by blast
qed

lemma rk_step_Inr:
  assumes "rk_step func t y f h (A, B, C, K) = Inr (ynew, fnew, K')"
  shows "\<exists>K0 K1 m. set_row K 0 f = Inr K0
    \<and> rk_stages func t y h 1 (zip (drop 1 A) (drop 1 C)) K0 = Inr K1
    \<and> matmul_T (ncols K1) (butlast K1) B = Inr m
    \<and> tadd y (smul h m) = Inr ynew
    \<and> func (t + h) ynew = Inr fnew
    \<and> set_row K1 (length K1 - 1) fnew = Inr K'"
  using assms by (auto simp: rk_step_def split: sum.splits)

subsection \<open>The kernel returns on well-shaped arguments\<close>

lemma matmul_T_Inr:
  "length rows = length a \<Longrightarrow> \<exists>m. matmul_T n rows a = Inr m \<and> length m = n"
  by (simp add: matmul_T_def)

lemma tadd_same:
  "length x = length y \<Longrightarrow> \<exists>z. tadd x y = Inr z \<and> length z = length x"
  by (simp add: tadd_def)

lemma set_row_same:
  "i < length K \<Longrightarrow> length v = ncols K \<Longrightarrow> set_row K i v = Inr (K[i := v])"
  by (simp add: set_row_def assign_row_def)

lemma rk_stages_total:
  assumes "\<forall>t v. length v = n \<longrightarrow> (\<exists>k. func t v = Inr k \<and> length k = n)"
    and "ncols K = n" and "length y = n" and "s + length acs \<le> length K"
    and "\<forall>j < length acs. s + j \<le> length (fst (acs ! j))"
  shows "\<exists>K'. rk_stages func t y h s acs K = Inr K'"
  using assms(2-)
proof (induction acs arbitrary: s K)
  case Nil
  then show ?case by simp
next
  case (Cons ac acs)
  obtain a c where ac: "ac = (a, c)" by (cases ac)
  have sK: "s < length K" using Cons.prems(3) by simp
  have sa: "s \<le> length a" using Cons.prems(4)[rule_format, of 0] ac by simp
  have "length (take s K) = length (take s a)" using sK sa by simp
  from matmul_T_Inr[OF this, of "ncols K"] obtain m where
    m: "matmul_T (ncols K) (take s K) (take s a) = Inr m" "length m = ncols K" by blast
  have "length y = length (smul h m)" using m(2) Cons.prems(1,2) by (simp add: smul_def)
  from tadd_same[OF this] obtain ydy where
    ydy: "tadd y (smul h m) = Inr ydy" "length ydy = length y" by blast
  from assms(1) ydy(2) Cons.prems(2) obtain k where
    k: "func (t + c * h) ydy = Inr k" "length k = n" by blast
  have sr: "set_row K s k = Inr (K[s := k])"
    by (rule set_row_same) (use sK k(2) Cons.prems(1) in auto)
  have nc: "ncols (K[s := k]) = n" using ncols_update[of k K s] k(2) Cons.prems(1) by simp
  have "\<forall>j < length acs. Suc s + j \<le> length (fst (acs ! j))"
  proof (intro allI impI)
    fix j assume "j < length acs"
    then show "Suc s + j \<le> length (fst (acs ! j))"
      using Cons.prems(4)[rule_format, of "Suc j"] by simp
  qed
  from Cons.IH[OF nc Cons.prems(2) _ this] Cons.prems(3) obtain K' where
    "rk_stages func t y h (Suc s) acs (K[s := k]) = Inr K'" by auto
  then show ?case using ac m(1) ydy(1) k(1) sr by simp
qed

lemma rk_step_total:
  assumes "length A = s" "length B = s" "length C = s" "1 \<le> s"
    and "\<forall>i < s. i \<le> length (A ! i)"
    and "length K = s + 1" "ncols K = n" "length y = n" "length f = n"
    and "\<forall>t v. length v = n \<longrightarrow> (\<exists>k. func t v = Inr k \<and> length k = n)"
  shows "\<exists>ynew fnew K'. rk_step func t y f h (A, B, C, K) = Inr (ynew, fnew, K')"
proof -
  have K0: "set_row K 0 f = Inr (K[0 := f])"
    by (rule set_row_same) (use assms in auto)
  have nc0: "ncols (K[0 := f]) = n" using ncols_update[of f K 0] assms(7,9) by simp
  let ?acs = "zip (drop 1 A) (drop 1 C)"
  have lacs: "length ?acs = s - 1" using assms(1,3) by simp
  have rows: "\<forall>j < length ?acs. 1 + j \<le> length (fst (?acs ! j))"
  proof (intro allI impI)
    fix j assume j: "j < length ?acs"
    then have "fst (?acs ! j) = A ! (1 + j)" using assms(1,3) by simp
    moreover have "1 + j < s" using j assms(1,3) by simp
    ultimately show "1 + j \<le> length (fst (?acs ! j))" using assms(5) by simp
  qed
  have "1 + length ?acs \<le> length (K[0 := f])" using lacs assms(4,6) by simp
  from rk_stages_total[OF assms(10) nc0 assms(8) this rows] obtain K1 where
    K1: "rk_stages func t y h 1 ?acs (K[0 := f]) = Inr K1" by blast
  from rk_stages_props[OF K1] have
    sh1: "length K1 = s + 1" "ncols K1 = n" using assms(6) nc0 by auto
  have "length (butlast K1) = length B" using sh1(1) assms(2) by simp
  from matmul_T_Inr[OF this, of "ncols K1"] obtain m where
    m: "matmul_T (ncols K1) (butlast K1) B = Inr m" "length m = ncols K1" by blast
  have "length y = length (smul h m)" using m(2) sh1(2) assms(8) by (simp add: smul_def)
  from tadd_same[OF this] obtain ynew where
    ynew: "tadd y (smul h m) = Inr ynew" "length ynew = length y" by blast
  from assms(10) ynew(2) assms(8) obtain fnew where
    fnew: "func (t + h) ynew = Inr fnew" "length fnew = n" by blast
  have K2: "set_row K1 (length K1 - 1) fnew = Inr (K1[length K1 - 1 := fnew])"
    by (rule set_row_same) (use sh1 fnew(2) in auto)
  show ?thesis using K0 K1 m(1) ynew(1) fnew(1) K2 by (simp add: rk_step_def)
qed

lemma rk_step_rows:
  assumes "rk_step func t y f h (A, B, C, K) = Inr (ynew, fnew, K')"
    and "length A = s" and "length C = s" and "length K = s + 1" and "1 \<le> s"
  shows "length K' = s + 1 \<and> ncols K' = ncols K
    \<and> assign_row (ncols K) f = Inr (K' ! 0)
    \<and> (length f = ncols K \<longrightarrow> K' ! 0 = f)
    \<and> (\<forall>i. 1 \<le> i \<and> i < s \<longrightarrow>
          (\<exists>m ydy k. matmul_T (ncols K) (take i K') (take i (A ! i)) = Inr m
             \<and> tadd y (smul h m) = Inr ydy
             \<and> func (t + C ! i * h) ydy = Inr k
             \<and> assign_row (ncols K) k = Inr (K' ! i)))
    \<and> (\<exists>m. matmul_T (ncols K) (butlast K') B = Inr m \<and> tadd y (smul h m) = Inr ynew)
    \<and> func (t + h) ynew = Inr fnew
    \<and> assign_row (ncols K) fnew = Inr (K' ! s)"
proof -
  from rk_step_Inr[OF assms(1)] obtain K0 K1 m where
    K0: "set_row K 0 f = Inr K0" and
    K1: "rk_stages func t y h 1 (zip (drop 1 A) (drop 1 C)) K0 = Inr K1" and
    m: "matmul_T (ncols K1) (butlast K1) B = Inr m" and
    ynew: "tadd y (smul h m) = Inr ynew" and
    fnew: "func (t + h) ynew = Inr fnew" and
    K2: "set_row K1 (length K1 - 1) fnew = Inr K'"
    by blast
  note p0 = set_row_props[OF K0]
  note p2 = set_row_props[OF K2]
  let ?acs = "zip (drop 1 A) (drop 1 C)"
  have lacs: "length ?acs = s - 1" using assms(2,3) by simp
  from rk_stages_props[OF K1] have
    len1: "length K1 = length K0" and nc1: "ncols K1 = ncols K0" and
    same1: "\<And>i. i < 1 \<or> 1 + length ?acs \<le> i \<Longrightarrow> K1 ! i = K0 ! i" and
    st1: "\<And>j. j < length ?acs \<Longrightarrow> \<exists>m ydy k.
          matmul_T (ncols K0) (take (1 + j) K1) (take (1 + j) (fst (?acs ! j))) = Inr m
          \<and> tadd y (smul h m) = Inr ydy
          \<and> func (t + snd (?acs ! j) * h) ydy = Inr k
          \<and> assign_row (ncols K0) k = Inr (K1 ! (1 + j))"
    by blast+
  have lenK1: "length K1 = s + 1" using len1 p0(1) assms(4) by simp
  have last: "length K1 - 1 = s" using lenK1 by simp
  have ncK1: "ncols K1 = ncols K" using nc1 p0(2) by simp
  have below: "\<And>i. i < s \<Longrightarrow> K' ! i = K1 ! i" using p2(5) last by simp
  have tk: "\<And>i. i \<le> s \<Longrightarrow> take i K' = take i K1"
    by (rule take_eq_if_nth) (use p2(1) below in auto)
  have bl: "butlast K' = butlast K1"
    using tk[of s] p2(1) lenK1 by (simp add: butlast_conv_take)
  have r0: "K' ! 0 = K0 ! 0" using below[of 0] same1[of 0] assms(5) by simp
  have c1: "length K' = s + 1 \<and> ncols K' = ncols K" using p2(1,2) lenK1 ncK1 by simp
  have c2: "assign_row (ncols K) f = Inr (K' ! 0)" using p0(4) r0 by simp
  have c3: "length f = ncols K \<longrightarrow> K' ! 0 = f" using c2 by (auto simp: assign_row_def)
  have c4: "\<forall>i. 1 \<le> i \<and> i < s \<longrightarrow>
          (\<exists>m ydy k. matmul_T (ncols K) (take i K') (take i (A ! i)) = Inr m
             \<and> tadd y (smul h m) = Inr ydy
             \<and> func (t + C ! i * h) ydy = Inr k
             \<and> assign_row (ncols K) k = Inr (K' ! i))"
  proof (intro allI impI)
    fix i assume i: "1 \<le> i \<and> i < s"
    then obtain j where j: "i = 1 + j" "j < length ?acs"
      using lacs by (metis add.commute le_Suc_ex less_diff_conv plus_1_eq_Suc)
    have acs: "?acs ! j = (A ! i, C ! i)" using j assms(2,3) lacs by simp
    from st1[OF j(2)] show "\<exists>m ydy k. matmul_T (ncols K) (take i K') (take i (A ! i)) = Inr m
             \<and> tadd y (smul h m) = Inr ydy
             \<and> func (t + C ! i * h) ydy = Inr k
             \<and> assign_row (ncols K) k = Inr (K' ! i)"
      using acs j(1) tk[of i] below[of i] i p0(2) by auto
  qed
  have c5: "\<exists>m. matmul_T (ncols K) (butlast K') B = Inr m \<and> tadd y (smul h m) = Inr ynew"
    using m ynew bl ncK1 by auto
  have c6: "assign_row (ncols K) fnew = Inr (K' ! s)" using p2(4) last ncK1 by simp
  show ?thesis using c1 c2 c3 c4 c5 fnew c6 by blast
qed

subsection \<open>The loops of the stepper\<close>

lemma single_step_body_Inr:
  assumes "single_step_body ss f0 t0 y0 t1 K h pr = Inr a"
  shows "\<exists>ynew fnew K' en.
      rk_step (s_func ss) t0 y0 f0 (if t0 + h > t1 then t1 - t0 else h)
        (s_A ss, s_B ss, s_C ss, K) = Inr (ynew, fnew, K')
    \<and> error_norm ss K' (if t0 + h > t1 then t1 - t0 else h) = Inr en
    \<and> a_t1_achieved a = (t0 + h > t1)
    \<and> a_hstep a = (if t0 + h > t1 then t1 - t0 else h)
    \<and> a_tnew a = t0 + a_hstep a
    \<and> a_ynew a = ynew \<and> a_fnew a = fnew \<and> a_K a = K'
    \<and> a_errnorm a = xdiv en (atol (s_solver ss) + max (norm2 y0) (norm2 ynew) * rtol (s_solver ss))
    \<and> a_accepted a = xless1 (a_errnorm a)
    \<and> a_h a = (if a_accepted a \<and> \<not> a_t1_achieved a
               then h * (if pr then min 1 (grow_factor (s_solver ss) (a_errnorm a))
                         else grow_factor (s_solver ss) (a_errnorm a))
               else if \<not> a_accepted a
               then a_hstep a * shrink_factor (s_solver ss) (a_errnorm a)
               else h)"
  using assms
  by (auto simp: single_step_body_def Let_def split: sum.splits prod.splits)

lemma single_step_loop_accepted_aux:
  "single_step_loop ss f0 t0 y0 t1 K h pr = Some r \<Longrightarrow>
   (case r of Inl e \<Rightarrow> True
    | Inr (st', fl, K') \<Rightarrow>
        \<exists>Kp hp prp a. single_step_body ss f0 t0 y0 t1 Kp hp prp = Inr a \<and> a_accepted a
          \<and> st' = (a_fnew a, a_tnew a, a_ynew a, a_h a) \<and> fl = a_t1_achieved a \<and> K' = a_K a)"
proof (induction rule: single_step_loop.raw_induct[rotated 1, consumes 1, case_names 1])
  case (1 loop ss f0 t0 y0 t1 K h pr r)
  show ?case
  proof (cases "single_step_body ss f0 t0 y0 t1 K h pr")
    case (Inl e)
    with 1(2) show ?thesis by auto
  next
    case (Inr a)
    show ?thesis
    proof (cases "a_accepted a")
      case True
      with Inr 1(2) have "r = Inr ((a_fnew a, a_tnew a, a_ynew a, a_h a), a_t1_achieved a, a_K a)"
        by simp
      with Inr True show ?thesis by (simp del: split_paired_Ex) blast
    next
      case False
      with Inr 1(2) have "loop ss f0 t0 y0 t1 (a_K a) (a_h a) True = Some r"
        by simp
      from 1(1)[OF this] show ?thesis .
    qed
  qed
qed

lemma single_step_accepted:
  assumes "single_step ss K (f0, t0, y0, h) t1 = Some (Inr (st', fl, K'))"
  shows "\<exists>Kp hp prp a. single_step_body ss f0 t0 y0 t1 Kp hp prp = Inr a \<and> a_accepted a
     \<and> st' = (a_fnew a, a_tnew a, a_ynew a, a_h a) \<and> fl = a_t1_achieved a \<and> K' = a_K a"
  using single_step_loop_accepted_aux[of ss f0 t0 y0 t1 K h False "Inr (st', fl, K')"] assms
  by (simp add: single_step_def)

lemma step_last_aux:
  "step ss K st t1 = Some r \<Longrightarrow>
   (case r of Inl e \<Rightarrow> True
    | Inr (st', K') \<Rightarrow> \<exists>Kp stp. single_step ss Kp stp t1 = Some (Inr (st', True, K')))"
proof (induction rule: step.raw_induct[rotated 1, consumes 1, case_names 1])
  case (1 stp ss K st t1 r)
  show ?case
  proof (cases "single_step ss K st t1")
    case None
    with 1(2) show ?thesis by simp
  next
    case (Some q)
    show ?thesis
    proof (cases q)
      case (Inl e)
      with Some 1(2) show ?thesis by auto
    next
      case (Inr x)
      obtain st1 fl K1 where x: "x = (st1, fl, K1)" by (cases x)
      show ?thesis
      proof (cases fl)
        case True
        with Some Inr x 1(2) have "r = Inr (st1, K1)" by simp
        with Some Inr x True show ?thesis by (simp del: split_paired_Ex) blast
      next
        case False
        with Some Inr x 1(2) have "stp ss K1 st1 t1 = Some r" by simp
        from 1(1)[OF this] show ?thesis .
      qed
    qed
  qed
qed

lemma step_last:
  assumes "step ss K st t1 = Some (Inr (st', K'))"
  shows "\<exists>Kp stp. single_step ss Kp stp t1 = Some (Inr (st', True, K'))"
  using step_last_aux[OF assms] by simp

lemma xless1_iff: "xless1 x \<longleftrightarrow> (\<exists>r. x = Fin r \<and> r < 1)"
  by (cases x) (simp_all add: xless1_def)


lemma solve_loop_Cons:
  assumes "solve_loop ss K st (t1 # rest) = Some (Inr rows)"
  shows "\<exists>st2 K2 row rows'. step ss K st t1 = Some (Inr (st2, K2))
     \<and> assign_row (length (s_y0 ss)) (fst (snd (snd st2))) = Inr row
     \<and> solve_loop ss K2 st2 rest = Some (Inr rows') \<and> rows = row # rows'"
  using assms by (auto split: option.splits sum.splits prod.splits)

subsection \<open>The step size factors\<close>

lemma init_Inr:
  assumes "init c a r = Inr sv"
  shows "\<exists>k. error_estimator_order c = Some k
    \<and> sv = \<lparr>cls = c, atol = a, rtol = r, max_factor = 10, min_factor = 0.2,
            step_mult = 0.9, error_exponent = - 1 / (real k + 1)\<rparr>"
  using assms by (auto simp: init_def split: option.splits)

lemma powr_neg_le_one:
  fixes x e :: real
  assumes "1 \<le> x" "e \<le> 0"
  shows "x powr e \<le> 1"
proof -
  have "x powr e \<le> x powr 0" using assms by (intro powr_mono) auto
  then show ?thesis using assms by simp
qed

lemma shrink_factor_bounds:
  assumes "init c a r = Inr sv" "\<not> xless1 e"
  shows "1 / 5 \<le> shrink_factor sv e \<and> shrink_factor sv e \<le> 9 / 10"
proof -
  from init_Inr[OF assms(1)] obtain k where
    sv: "sv = \<lparr>cls = c, atol = a, rtol = r, max_factor = 10, min_factor = 0.2,
            step_mult = 0.9, error_exponent = - 1 / (real k + 1)\<rparr>"
    by blast
  show ?thesis
  proof (cases e)
    case (Fin x)
    with assms(2) have x: "1 \<le> x" by (simp add: xless1_def)
    have "x powr (- 1 / (real k + 1)) \<le> 1"
      by (rule powr_neg_le_one[OF x]) (simp add: divide_nonpos_pos)
    then show ?thesis using Fin sv by (simp add: shrink_factor_def)
  next
    case PInf
    then show ?thesis using sv by (simp add: shrink_factor_def)
  next
    case NaN
    then show ?thesis using sv by (simp add: shrink_factor_def)
  qed
qed

lemma grow_factor_pos:
  assumes "init c a r = Inr sv" "xless1 e"
  shows "0 < grow_factor sv e"
proof -
  from init_Inr[OF assms(1)] obtain k where
    sv: "sv = \<lparr>cls = c, atol = a, rtol = r, max_factor = 10, min_factor = 0.2,
            step_mult = 0.9, error_exponent = - 1 / (real k + 1)\<rparr>"
    by blast
  from assms(2) obtain x where "e = Fin x" by (auto simp: xless1_iff)
  then show ?thesis using sv by (simp add: grow_factor_def)
qed

text \<open>One rejected attempt and the attempt that follows it.\<close>

lemma rejected_then_next:
  assumes i: "init c atl rtl = Inr (s_solver ss)"
    and b1: "single_step_body ss f0 t0 y0 t1 K h pr = Inr a1" and rej: "\<not> a_accepted a1"
    and inv: "0 \<le> h \<or> t1 < t0 + h"
  shows "(0 \<le> a_h a1 \<or> t1 < t0 + a_h a1)
     \<and> (single_step_body ss f0 t0 y0 t1 K2 (a_h a1) pr2 = Inr a2 \<longrightarrow> a_hstep a2 \<le> a_hstep a1)"
proof -
  from single_step_body_Inr[OF b1] have
    f1: "a_t1_achieved a1 = (t0 + h > t1)" "a_hstep a1 = (if t0 + h > t1 then t1 - t0 else h)"
      "a_accepted a1 = xless1 (a_errnorm a1)"
      "a_h a1 = a_hstep a1 * shrink_factor (s_solver ss) (a_errnorm a1)"
    using rej by auto
  let ?s = "shrink_factor (s_solver ss) (a_errnorm a1)"
  from shrink_factor_bounds[OF i] f1(3) rej have s: "1 / 5 \<le> ?s" "?s \<le> 9 / 10" by auto
  have le: "0 \<le> a_hstep a1 \<Longrightarrow> 0 \<le> a_h a1 \<and> a_h a1 \<le> a_hstep a1"
  proof -
    assume p: "0 \<le> a_hstep a1"
    have "a_hstep a1 * ?s \<le> a_hstep a1 * 1" using s p by (intro mult_left_mono) auto
    moreover have "0 \<le> a_hstep a1 * ?s" using s p by simp
    ultimately show ?thesis using f1(4) by simp
  qed
  have gt: "a_hstep a1 < 0 \<Longrightarrow> a_hstep a1 < a_h a1 \<and> a_t1_achieved a1"
  proof -
    assume n: "a_hstep a1 < 0"
    have "a_hstep a1 * 1 < a_hstep a1 * ?s" using s n by (intro mult_strict_left_mono_neg) auto
    moreover have "a_t1_achieved a1" using n inv f1(1,2) by (auto split: if_splits)
    ultimately show ?thesis using f1(4) by simp
  qed
  have c1: "0 \<le> a_h a1 \<or> t1 < t0 + a_h a1"
  proof (cases "0 \<le> a_hstep a1")
    case True
    then show ?thesis using le by simp
  next
    case False
    then have "a_hstep a1 < a_h a1" "a_hstep a1 = t1 - t0" using gt f1(1,2) by (auto split: if_splits)
    then show ?thesis by simp
  qed
  have c2: "single_step_body ss f0 t0 y0 t1 K2 (a_h a1) pr2 = Inr a2 \<longrightarrow> a_hstep a2 \<le> a_hstep a1"
  proof
    assume b2: "single_step_body ss f0 t0 y0 t1 K2 (a_h a1) pr2 = Inr a2"
    from single_step_body_Inr[OF b2] have
      f2: "a_hstep a2 = (if t0 + a_h a1 > t1 then t1 - t0 else a_h a1)" by auto
    show "a_hstep a2 \<le> a_hstep a1"
    proof (cases "0 \<le> a_hstep a1")
      case True
      from le[OF True] f1(2) f2 show ?thesis by (auto split: if_splits)
    next
      case False
      then have "a_hstep a1 < a_h a1" "a_hstep a1 = t1 - t0" using gt f1(1,2) by (auto split: if_splits)
      then show ?thesis using f2 by simp
    qed
  qed
  show ?thesis using c1 c2 by blast
qed

lemma accepted_after_rejection_h:
  assumes i: "init c atl rtl = Inr (s_solver ss)"
    and b: "single_step_body ss f0 t0 y0 t1 K h True = Inr a" and acc: "a_accepted a"
    and nt: "\<not> a_t1_achieved a" and inv: "0 \<le> h \<or> t1 < t0 + h"
  shows "a_h a \<le> h \<and> a_hstep a = h \<and> 0 \<le> a_h a"
proof -
  from single_step_body_Inr[OF b] acc nt have
    f: "\<not> t0 + h > t1" "a_hstep a = h" "xless1 (a_errnorm a)"
      "a_h a = h * min 1 (grow_factor (s_solver ss) (a_errnorm a))"
    by (auto split: if_splits)
  have h0: "0 \<le> h" using inv f(1) by auto
  have g: "0 < grow_factor (s_solver ss) (a_errnorm a)" by (rule grow_factor_pos[OF i f(3)])
  have "h * min 1 (grow_factor (s_solver ss) (a_errnorm a)) \<le> h * 1"
    using h0 by (intro mult_left_mono) auto
  moreover have "0 \<le> h * min 1 (grow_factor (s_solver ss) (a_errnorm a))"
    using h0 g by simp
  ultimately show ?thesis using f by simp
qed

lemma loop_step_bound:
  "single_step_loop ss f0 t0 y0 t1 K h pr = Some r \<Longrightarrow>
   init c atl rtl = Inr (s_solver ss) \<Longrightarrow> 0 \<le> h \<or> t1 < t0 + h \<Longrightarrow>
   (case r of Inl e \<Rightarrow> True
    | Inr (st', fl, K') \<Rightarrow>
        (\<exists>a. single_step_body ss f0 t0 y0 t1 K h pr = Inr a
           \<and> fst (snd st') - t0 \<le> a_hstep a
           \<and> (\<not> fl \<and> (pr \<or> \<not> a_accepted a) \<longrightarrow> snd (snd (snd st')) \<le> a_hstep a)))"
proof (induction rule: single_step_loop.raw_induct[rotated 1, consumes 1, case_names 1])
  case (1 loop ss f0 t0 y0 t1 K h pr r)
  note i = 1(3) and inv = 1(4)
  show ?case
  proof (cases "single_step_body ss f0 t0 y0 t1 K h pr")
    case (Inl e)
    with 1(2) show ?thesis by auto
  next
    case (Inr a)
    note b = Inr
    show ?thesis
    proof (cases "a_accepted a")
      case True
      with b 1(2) have r: "r = Inr ((a_fnew a, a_tnew a, a_ynew a, a_h a), a_t1_achieved a, a_K a)"
        by simp
      from single_step_body_Inr[OF b] have t: "a_tnew a = t0 + a_hstep a" by auto
      have "\<not> a_t1_achieved a \<and> pr \<longrightarrow> a_h a \<le> a_hstep a"
        using accepted_after_rejection_h[OF i _ True _ inv, of f0 y0 K] b by auto
      then show ?thesis using r t True b by simp
    next
      case False
      with b 1(2) have l: "loop ss f0 t0 y0 t1 (a_K a) (a_h a) True = Some r" by simp
      from rejected_then_next[OF i b False inv] have
        inv2: "0 \<le> a_h a \<or> t1 < t0 + a_h a" and
        mono: "\<And>K2 pr2 a2. single_step_body ss f0 t0 y0 t1 K2 (a_h a) pr2 = Inr a2
            \<Longrightarrow> a_hstep a2 \<le> a_hstep a"
        by blast+
      show ?thesis
      proof (cases r)
        case (Inl e)
        then show ?thesis by simp
      next
        case (Inr x)
        obtain st' fl K' where x: "x = (st', fl, K')" by (cases x)
        from 1(1)[OF l i inv2] Inr x obtain a2 where
          a2: "single_step_body ss f0 t0 y0 t1 (a_K a) (a_h a) True = Inr a2"
            "fst (snd st') - t0 \<le> a_hstep a2"
            "\<not> fl \<longrightarrow> snd (snd (snd st')) \<le> a_hstep a2"
          by auto
        from mono[OF a2(1)] a2(2,3) have
          "fst (snd st') - t0 \<le> a_hstep a" "\<not> fl \<longrightarrow> snd (snd (snd st')) \<le> a_hstep a"
          by auto
        then show ?thesis using Inr x b by simp
      qed
    qed
  qed
qed

subsection \<open>Shapes and the rows of the result\<close>

lemma matmul_T_length: "matmul_T n rows a = Inr m \<Longrightarrow> length m = n"
  by (auto simp: matmul_T_def split: if_splits)

lemma tadd_length: "tadd x y = Inr z \<Longrightarrow> length x = length y \<Longrightarrow> length z = length x"
  by (auto simp: tadd_def split: if_splits)

lemma rk_step_shape:
  assumes "rk_step func t y f h (A, B, C, K) = Inr (ynew, fnew, K')" and "length y = ncols K"
  shows "length ynew = ncols K \<and> ncols K' = ncols K \<and> length K' = length K"
proof -
  from rk_step_Inr[OF assms(1)] obtain K0 K1 m where
    K0: "set_row K 0 f = Inr K0" and
    K1: "rk_stages func t y h 1 (zip (drop 1 A) (drop 1 C)) K0 = Inr K1" and
    m: "matmul_T (ncols K1) (butlast K1) B = Inr m" and
    ynew: "tadd y (smul h m) = Inr ynew" and
    K2: "set_row K1 (length K1 - 1) fnew = Inr K'"
    by blast
  note p0 = set_row_props[OF K0] and p1 = rk_stages_props[OF K1] and p2 = set_row_props[OF K2]
  have nc: "ncols K1 = ncols K" "length K1 = length K" using p0(1,2) p1 by auto
  have "length (smul h m) = ncols K" using matmul_T_length[OF m] nc by (simp add: smul_def)
  with tadd_length[OF ynew] assms(2) have "length ynew = ncols K" by simp
  then show ?thesis using p2(1,2) nc by simp
qed

lemma single_step_body_shape:
  assumes "single_step_body ss f0 t0 y0 t1 K h pr = Inr a" and "length y0 = ncols K"
  shows "length (a_ynew a) = ncols K \<and> ncols (a_K a) = ncols K \<and> length (a_K a) = length K"
proof -
  from single_step_body_Inr[OF assms(1)] obtain ynew fnew K' where
    "rk_step (s_func ss) t0 y0 f0 (if t0 + h > t1 then t1 - t0 else h)
        (s_A ss, s_B ss, s_C ss, K) = Inr (ynew, fnew, K')" "a_ynew a = ynew" "a_K a = K'"
    by blast
  with rk_step_shape[OF this(1) assms(2)] show ?thesis by simp
qed

lemma single_step_loop_shape:
  "single_step_loop ss f0 t0 y0 t1 K h pr = Some r \<Longrightarrow> length y0 = ncols K \<Longrightarrow>
   (case r of Inl e \<Rightarrow> True
    | Inr (st', fl, K') \<Rightarrow>
        length (fst (snd (snd st'))) = ncols K \<and> ncols K' = ncols K \<and> length K' = length K)"
proof (induction rule: single_step_loop.raw_induct[rotated 1, consumes 1, case_names 1])
  case (1 loop ss f0 t0 y0 t1 K h pr r)
  show ?case
  proof (cases "single_step_body ss f0 t0 y0 t1 K h pr")
    case (Inl e)
    with 1(2) show ?thesis by auto
  next
    case (Inr a)
    note sh = single_step_body_shape[OF Inr 1(3)]
    show ?thesis
    proof (cases "a_accepted a")
      case True
      with Inr 1(2) sh show ?thesis by auto
    next
      case False
      with Inr 1(2) have l: "loop ss f0 t0 y0 t1 (a_K a) (a_h a) True = Some r" by simp
      have "length y0 = ncols (a_K a)" using sh 1(3) by simp
      from 1(1)[OF l this] sh show ?thesis by (auto split: sum.splits)
    qed
  qed
qed

lemma step_shape:
  "step ss K st t1 = Some r \<Longrightarrow> length (fst (snd (snd st))) = ncols K \<Longrightarrow>
   (case r of Inl e \<Rightarrow> True
    | Inr (st', K') \<Rightarrow>
        length (fst (snd (snd st'))) = ncols K \<and> ncols K' = ncols K \<and> length K' = length K)"
proof (induction rule: step.raw_induct[rotated 1, consumes 1, case_names 1])
  case (1 stp ss K st t1 r)
  obtain f0 t0 y0 h where st: "st = (f0, t0, y0, h)" by (cases st) auto
  show ?case
  proof (cases "single_step ss K st t1")
    case None
    with 1(2) show ?thesis by simp
  next
    case (Some q)
    show ?thesis
    proof (cases q)
      case (Inl e)
      with Some 1(2) show ?thesis by auto
    next
      case (Inr x)
      obtain st1 fl K1 where x: "x = (st1, fl, K1)" by (cases x)
      from Some Inr x st have "single_step_loop ss f0 t0 y0 t1 K h False = Some (Inr (st1, fl, K1))"
        by (simp add: single_step_def)
      from single_step_loop_shape[OF this] 1(3) st have
        sh: "length (fst (snd (snd st1))) = ncols K" "ncols K1 = ncols K" "length K1 = length K"
        by auto
      show ?thesis
      proof (cases fl)
        case True
        with Some Inr x 1(2) sh show ?thesis by auto
      next
        case False
        with Some Inr x 1(2) have "stp ss K1 st1 t1 = Some r" by simp
        from 1(1)[OF this] sh show ?thesis by (auto split: sum.splits)
      qed
    qed
  qed
qed

lemma concat_length:
  "\<forall>r \<in> set rows. length r = n \<Longrightarrow> length (concat rows) = length rows * n"
  by (induction rows) auto

lemma concat_row:
  "\<forall>r \<in> set rows. length r = n \<Longrightarrow> i < length rows \<Longrightarrow>
   take n (drop (i * n) (concat rows)) = rows ! i"
proof (induction rows arbitrary: i)
  case Nil
  then show ?case by simp
next
  case (Cons r rows)
  then show ?case using Cons.IH[of "i - 1"] by (cases i) auto
qed

lemma solve_loop_rows:
  "solve_loop ss K st grid = Some (Inr rows) \<Longrightarrow>
   length rows = length grid \<and> (\<forall>r \<in> set rows. length r = length (s_y0 ss))"
proof (induction grid arbitrary: K st rows)
  case Nil
  then show ?case by simp
next
  case (Cons t1 rest)
  from solve_loop_Cons[OF Cons.prems] obtain st2 K2 row rows' where
    r: "assign_row (length (s_y0 ss)) (fst (snd (snd st2))) = Inr row"
      "solve_loop ss K2 st2 rest = Some (Inr rows')" "rows = row # rows'"
    by blast
  from Cons.IH[OF r(2)] assign_row_length[OF r(1)] r(3) show ?case by simp
qed

lemma solve_Inr:
  assumes "solve ss = Some (Inr yt)"
  shows "\<exists>t0 t1 rest f0 rows. s_ts ss = t0 # t1 # rest
    \<and> s_func ss t0 (s_y0 ss) = Inr f0
    \<and> solve_loop ss (s_K ss) (f0, t0, s_y0 ss, t1 - t0) (t1 # rest) = Some (Inr rows)
    \<and> reshape_rows (s_y0 ss # rows) (s_yshape ss) = Inr yt"
  using assms
  by (auto simp: solve_def simp del: solve_loop.simps split: list.splits sum.splits option.splits)

lemma reshape_rows_Inr:
  assumes "reshape_rows rows shp = Inr yt" and "\<forall>r \<in> set rows. length r = numel shp"
  shows "shape yt = length rows # shp \<and> data yt = concat rows \<and> 0 < numel shp"
proof -
  from assms(1) have m: "numel shp \<noteq> 0" and yt: "yt = \<lparr>shape = (length (concat rows) div numel shp) # shp, data = concat rows\<rparr>"
    by (auto simp: reshape_rows_def Let_def split: if_splits)
  from concat_length[OF assms(2)] m yt show ?thesis by simp
qed

lemma tensor_index_rows:
  assumes "shape yt = length rows # shp" "data yt = concat rows"
    and "\<forall>r \<in> set rows. length r = numel shp" and "i < length rows"
  shows "tensor_index yt i = Inr \<lparr>shape = shp, data = rows ! i\<rparr>"
  using assms concat_row[OF assms(3,4)] by (simp add: tensor_index_def mult.commute)

lemma ncols_torch_empty: "ncols (torch_empty mem (Suc s) n) = n"
  by (simp add: torch_empty_def ncols_def upt_conv_Cons del: upt_Suc)

lemma solver_setup_Inr:
  assumes "solver_setup sv mem fcn tgrid y params = Inr ss"
  shows "2 \<le> length tgrid \<and> s_solver ss = sv \<and> s_yshape ss = shape y \<and> s_y0 ss = data y
    \<and> s_ts ss = (if tgrid ! 1 - tgrid ! 0 < 0 then map uminus tgrid else tgrid)
    \<and> s_func ss = (if tgrid ! 1 - tgrid ! 0 < 0 then func_backward fcn (shape y) params
                   else func_forward fcn (shape y) params)
    \<and> ncols (s_K ss) = numel (shape y)
    \<and> (\<exists>s. n_stages (cls sv) = Some s \<and> s_K ss = torch_empty mem (s + 1) (numel (shape y)))
    \<and> tab_A (cls sv) = Some (s_A ss) \<and> tab_B (cls sv) = Some (s_B ss)
    \<and> tab_C (cls sv) = Some (s_C ss) \<and> tab_E (cls sv) = Some (s_E ss)"
  using assms
  by (auto simp: solver_setup_def Let_def flatten_def ncols_torch_empty
      split: if_splits option.splits)

lemma s_func_wf:
  assumes "solver_setup sv mem fcn tgrid y params = Inr ss" and "s_func ss t v = Inr f"
  shows "length v = numel (shape y)"
  using solver_setup_Inr[OF assms(1)] assms(2)
  by (auto simp: func_forward_def func_backward_def reshape_def split: if_splits)

lemma rk_adaptive_Inr:
  assumes "rk_adaptive mem fcn tgrid y params c a r = Some (Inr yt)"
  shows "\<exists>sv ss. init c a r = Inr sv \<and> solver_setup sv mem fcn tgrid y params = Inr ss
     \<and> solve ss = Some (Inr yt)"
  using assms by (auto simp: rk_adaptive_def split: sum.splits)

text \<open>What a returned result of \<open>solve\<close> looks like, for a session made by \<open>solver_setup\<close>.\<close>

lemma solve_setup_result:
  assumes su: "solver_setup sv mem fcn tgrid y params = Inr ss"
    and so: "solve ss = Some (Inr yt)"
  shows "\<exists>rows. wf_tensor y \<and> 0 < numel (shape y)
     \<and> length rows = length tgrid
     \<and> shape yt = length tgrid # shape y \<and> data yt = concat rows
     \<and> rows ! 0 = data y
     \<and> (\<forall>r \<in> set rows. length r = numel (shape y))"
proof -
  note s = solver_setup_Inr[OF su]
  from solve_Inr[OF so] obtain t0 t1 rest f0 rows where
    ts: "s_ts ss = t0 # t1 # rest" and f0: "s_func ss t0 (s_y0 ss) = Inr f0" and
    l: "solve_loop ss (s_K ss) (f0, t0, s_y0 ss, t1 - t0) (t1 # rest) = Some (Inr rows)" and
    rs: "reshape_rows (s_y0 ss # rows) (s_yshape ss) = Inr yt"
    by blast
  have y0: "s_y0 ss = data y" "s_yshape ss = shape y" using s by auto
  have wf: "length (data y) = numel (shape y)" using s_func_wf[OF su f0] y0 by simp
  have lts: "length (s_ts ss) = length tgrid" using s by (auto split: if_splits)
  from solve_loop_rows[OF l] have
    lr: "length rows = length (t1 # rest)" "\<forall>r \<in> set rows. length r = length (s_y0 ss)"
    by auto
  have all: "\<forall>r \<in> set (s_y0 ss # rows). length r = numel (shape y)"
    using lr(2) wf y0 by simp
  from reshape_rows_Inr[OF rs] all y0 have
    sh: "shape yt = length (s_y0 ss # rows) # shape y" "data yt = concat (s_y0 ss # rows)"
      "0 < numel (shape y)"
    by auto
  have "wf_tensor y" using wf by (simp add: wf_tensor_def)
  moreover have "length (s_y0 ss # rows) = length tgrid" using lr(1) lts ts by simp
  moreover have "shape yt = length tgrid # shape y" using sh(1) lr(1) lts ts by simp
  moreover have "(s_y0 ss # rows) ! 0 = data y" using y0 by simp
  ultimately show ?thesis using sh(2,3) all by blast
qed

subsection \<open>The example problems, evaluated\<close>

lemma norm2_single: "norm2 [x] = \<bar>x\<bar>"
  by (simp add: norm2_def)

lemma jump_session_eq:
  "jump_session = \<lparr>s_solver = \<lparr>cls = RK23, atol = 18, rtol = 0, max_factor = 10,
       min_factor = 0.2, step_mult = 0.9, error_exponent = - 1 / 3\<rparr>,
     s_yshape = [1], s_y0 = [0], s_ts = [0, 2],
     s_func = func_forward fcn_jump [1] (), s_K = [[0], [0], [0], [0]],
     s_A = [[0, 0, 0], [1 / 2, 0, 0], [0, 3 / 4, 0]], s_B = [2 / 9, 1 / 3, 4 / 9],
     s_C = [0, 1 / 2, 3 / 4], s_E = [5 / 72, - 1 / 12, - 1 / 9, 1 / 8]\<rparr>"
  by (simp add: jump_session_def init_def solver_setup_def RK23_def torch_empty_def numel_def
      flatten_def upt_rec)

lemma jump_init: "init RK23 18 0 = Inr (s_solver jump_session)"
  by (simp add: jump_session_eq init_def RK23_def)

lemmas eval_defs = rk_step_def set_row_def assign_row_def ncols_def matmul_T_def tadd_def
  smul_def func_forward_def reshape_def numel_def flatten_def upt_rec

lemmas body_eval = single_step_body_def error_norm_def xdiv_def xless1_def Let_def
  grow_factor_def shrink_factor_def norm2_single

lemma jump_body_first:
  "single_step_body jump_session [0] 0 [0] 2 [[0], [0], [0], [0]] 2 False
   = Inr \<lparr>a_t1_achieved = False, a_hstep = 2, a_tnew = 2, a_ynew = [0], a_fnew = [72],
          a_K = [[0], [0], [0], [72]], a_errnorm = Fin 1, a_accepted = False, a_h = 9 / 5\<rparr>"
  by (simp add: jump_session_eq body_eval eval_defs fcn_jump_def)

lemma jump_body_second:
  "single_step_body jump_session [0] 0 [0] 2 [[0], [0], [0], [72]] (9 / 5) True
   = Inr \<lparr>a_t1_achieved = False, a_hstep = 9 / 5, a_tnew = 9 / 5, a_ynew = [0], a_fnew = [0],
          a_K = [[0], [0], [0], [0]], a_errnorm = Fin 0, a_accepted = True, a_h = 9 / 5\<rparr>"
  by (simp add: jump_session_eq body_eval eval_defs fcn_jump_def)

lemma jump_single_step_first:
  "single_step jump_session [[0], [0], [0], [0]] ([0], 0, [0], 2) 2
   = Some (Inr (([0], 9 / 5, [0], 9 / 5), False, [[0], [0], [0], [0]]))"
  unfolding single_step_def
  by (simp add: single_step_loop.simps[of _ _ _ _ _ _ _ False]
      single_step_loop.simps[of _ _ _ _ _ _ _ True] jump_body_first jump_body_second)

lemma lin_session_fields:
  assumes "2 \<le> length g"
  shows "s_solver (lin_session g) = \<lparr>cls = RK23, atol = 1 / 10 ^ 8, rtol = 1 / 10 ^ 5,
       max_factor = 10, min_factor = 0.2, step_mult = 0.9, error_exponent = - 1 / 3\<rparr>"
    "s_yshape (lin_session g) = [1]" "s_y0 (lin_session g) = [5]"
    "s_ts (lin_session g) = (if g ! 1 - g ! 0 < 0 then map uminus g else g)"
    "s_K (lin_session g) = [[0], [0], [0], [0]]"
    "s_A (lin_session g) = [[0, 0, 0], [1 / 2, 0, 0], [0, 3 / 4, 0]]"
    "s_B (lin_session g) = [2 / 9, 1 / 3, 4 / 9]"
    "s_C (lin_session g) = [0, 1 / 2, 3 / 4]"
    "s_E (lin_session g) = [5 / 72, - 1 / 12, - 1 / 9, 1 / 8]"
    "s_func (lin_session g) t [y] = Inr [t]"
  using assms
  by (simp_all add: lin_session_def init_def solver_setup_def RK23_def torch_empty_def numel_def
      flatten_def upt_rec Let_def func_forward_def func_backward_def reshape_def fcn_lin_def
      vneg_def)

lemmas lin_eval = lin_session_fields rk_step_def set_row_def assign_row_def ncols_def
  matmul_T_def tadd_def smul_def upt_rec body_eval

lemma lin_body_forward_1:
  assumes "2 \<le> length g"
  shows "single_step_body (lin_session g) [0] 0 [5] 1 [[0], [0], [0], [0]] 1 False
   = Inr \<lparr>a_t1_achieved = False, a_hstep = 1, a_tnew = 1, a_ynew = [11 / 2], a_fnew = [1],
          a_K = [[0], [1 / 2], [3 / 4], [1]], a_errnorm = Fin 0, a_accepted = True, a_h = 10\<rparr>"
  using assms by (simp add: lin_eval)

lemma lin_body_forward_2:
  assumes "2 \<le> length g"
  shows "single_step_body (lin_session g) [1] 1 [11 / 2] 1 [[0], [1 / 2], [3 / 4], [1]] 10 False
   = Inr \<lparr>a_t1_achieved = True, a_hstep = 0, a_tnew = 1, a_ynew = [11 / 2], a_fnew = [1],
          a_K = [[1], [1], [1], [1]], a_errnorm = Fin 0, a_accepted = True, a_h = 10\<rparr>"
  using assms by (simp add: lin_eval)

lemma lin_body_forward_3:
  assumes "2 \<le> length g"
  shows "single_step_body (lin_session g) [1] 1 [11 / 2] (1 / 2) [[1], [1], [1], [1]] 10 False
   = Inr \<lparr>a_t1_achieved = True, a_hstep = - (1 / 2), a_tnew = 1 / 2, a_ynew = [41 / 8],
          a_fnew = [1 / 2], a_K = [[1], [3 / 4], [5 / 8], [1 / 2]], a_errnorm = Fin 0,
          a_accepted = True, a_h = 10\<rparr>"
  using assms by (simp add: lin_eval)

lemma lin_body_backward_1:
  assumes "2 \<le> length g"
  shows "single_step_body (lin_session g) [- 2] (- 2) [5] (- 1) [[0], [0], [0], [0]] 1 False
   = Inr \<lparr>a_t1_achieved = False, a_hstep = 1, a_tnew = - 1, a_ynew = [7 / 2], a_fnew = [- 1],
          a_K = [[- 2], [- (3 / 2)], [- (5 / 4)], [- 1]], a_errnorm = Fin 0, a_accepted = True,
          a_h = 10\<rparr>"
  using assms by (simp add: lin_eval)

lemma lin_body_backward_2:
  assumes "2 \<le> length g"
  shows "single_step_body (lin_session g) [- 1] (- 1) [7 / 2] (- 1)
      [[- 2], [- (3 / 2)], [- (5 / 4)], [- 1]] 10 False
   = Inr \<lparr>a_t1_achieved = True, a_hstep = 0, a_tnew = - 1, a_ynew = [7 / 2], a_fnew = [- 1],
          a_K = [[- 1], [- 1], [- 1], [- 1]], a_errnorm = Fin 0, a_accepted = True,
          a_h = 10\<rparr>"
  using assms by (simp add: lin_eval)

lemma lin_body_backward_3:
  assumes "2 \<le> length g"
  shows "single_step_body (lin_session g) [- 1] (- 1) [7 / 2] 0
      [[- 1], [- 1], [- 1], [- 1]] 10 False
   = Inr \<lparr>a_t1_achieved = True, a_hstep = 1, a_tnew = 0, a_ynew = [3], a_fnew = [0],
          a_K = [[- 1], [- (1 / 2)], [- (1 / 4)], [0]], a_errnorm = Fin 0, a_accepted = True,
          a_h = 10\<rparr>"
  using assms by (simp add: lin_eval)

lemma lin_single_step_forward_1:
  assumes "2 \<le> length g"
  shows "single_step (lin_session g) [[0], [0], [0], [0]] ([0], 0, [5], 1) 1
   = Some (Inr (([1], 1, [11 / 2], 10), False, [[0], [1 / 2], [3 / 4], [1]]))"
  unfolding single_step_def
  by (simp add: single_step_loop.simps[of _ _ _ _ _ _ _ False] lin_body_forward_1[OF assms])

lemma lin_single_step_forward_2:
  assumes "2 \<le> length g"
  shows "single_step (lin_session g) [[0], [1 / 2], [3 / 4], [1]] ([1], 1, [11 / 2], 10) 1
   = Some (Inr (([1], 1, [11 / 2], 10), True, [[1], [1], [1], [1]]))"
  unfolding single_step_def
  by (simp add: single_step_loop.simps[of _ _ _ _ _ _ _ False] lin_body_forward_2[OF assms])

lemma lin_single_step_forward_3:
  assumes "2 \<le> length g"
  shows "single_step (lin_session g) [[1], [1], [1], [1]] ([1], 1, [11 / 2], 10) (1 / 2)
   = Some (Inr (([1 / 2], 1 / 2, [41 / 8], 10), True, [[1], [3 / 4], [5 / 8], [1 / 2]]))"
  unfolding single_step_def
  by (simp add: single_step_loop.simps[of _ _ _ _ _ _ _ False] lin_body_forward_3[OF assms])

lemma lin_step_forward_2:
  assumes "2 \<le> length g"
  shows "step (lin_session g) [[0], [1 / 2], [3 / 4], [1]] ([1], 1, [11 / 2], 10) 1
   = Some (Inr (([1], 1, [11 / 2], 10), [[1], [1], [1], [1]]))"
  by (simp add: step.simps[of _ "[[0], [1 / 2], [3 / 4], [1]]"] lin_single_step_forward_2[OF assms])

lemma lin_step_forward_1:
  assumes "2 \<le> length g"
  shows "step (lin_session g) [[0], [0], [0], [0]] ([0], 0, [5], 1) 1
   = Some (Inr (([1], 1, [11 / 2], 10), [[1], [1], [1], [1]]))"
  by (simp add: step.simps[of _ "[[0], [0], [0], [0]]"] lin_single_step_forward_1[OF assms]
      lin_step_forward_2[OF assms])

lemma lin_step_forward_3:
  assumes "2 \<le> length g"
  shows "step (lin_session g) [[1], [1], [1], [1]] ([1], 1, [11 / 2], 10) (1 / 2)
   = Some (Inr (([1 / 2], 1 / 2, [41 / 8], 10), [[1], [3 / 4], [5 / 8], [1 / 2]]))"
  by (simp add: step.simps[of _ "[[1], [1], [1], [1]]"] lin_single_step_forward_3[OF assms])

lemma lin_single_step_backward_1:
  assumes "2 \<le> length g"
  shows "single_step (lin_session g) [[0], [0], [0], [0]] ([- 2], - 2, [5], 1) (- 1)
   = Some (Inr (([- 1], - 1, [7 / 2], 10), False, [[- 2], [- (3 / 2)], [- (5 / 4)], [- 1]]))"
  unfolding single_step_def
  by (simp add: single_step_loop.simps[of _ _ _ _ _ _ _ False] lin_body_backward_1[OF assms])

lemma lin_single_step_backward_2:
  assumes "2 \<le> length g"
  shows "single_step (lin_session g) [[- 2], [- (3 / 2)], [- (5 / 4)], [- 1]]
      ([- 1], - 1, [7 / 2], 10) (- 1)
   = Some (Inr (([- 1], - 1, [7 / 2], 10), True, [[- 1], [- 1], [- 1], [- 1]]))"
  unfolding single_step_def
  by (simp add: single_step_loop.simps[of _ _ _ _ _ _ _ False] lin_body_backward_2[OF assms])

lemma lin_single_step_backward_3:
  assumes "2 \<le> length g"
  shows "single_step (lin_session g) [[- 1], [- 1], [- 1], [- 1]] ([- 1], - 1, [7 / 2], 10) 0
   = Some (Inr (([0], 0, [3], 10), True, [[- 1], [- (1 / 2)], [- (1 / 4)], [0]]))"
  unfolding single_step_def
  by (simp add: single_step_loop.simps[of _ _ _ _ _ _ _ False] lin_body_backward_3[OF assms])

lemma lin_step_backward_1:
  assumes "2 \<le> length g"
  shows "step (lin_session g) [[0], [0], [0], [0]] ([- 2], - 2, [5], 1) (- 1)
   = Some (Inr (([- 1], - 1, [7 / 2], 10), [[- 1], [- 1], [- 1], [- 1]]))"
  by (simp add: step.simps[of _ "[[0], [0], [0], [0]]"]
      step.simps[of _ "[[- 2], [- (3 / 2)], [- (5 / 4)], [- 1]]"]
      lin_single_step_backward_1[OF assms] lin_single_step_backward_2[OF assms])

lemma lin_step_backward_3:
  assumes "2 \<le> length g"
  shows "step (lin_session g) [[- 1], [- 1], [- 1], [- 1]] ([- 1], - 1, [7 / 2], 10) 0
   = Some (Inr (([0], 0, [3], 10), [[- 1], [- (1 / 2)], [- (1 / 4)], [0]]))"
  by (simp add: step.simps[of _ "[[- 1], [- 1], [- 1], [- 1]]"]
      lin_single_step_backward_3[OF assms])

lemma lin_solve_forward:
  "solve (lin_session [0, 1, 1 / 2]) = Some (Inr \<lparr>shape = [3, 1], data = [5, 11 / 2, 41 / 8]\<rparr>)"
  by (simp add: solve_def lin_session_fields lin_step_forward_1 lin_step_forward_3
      reshape_rows_def assign_row_def numel_def)

lemma lin_solve_backward:
  "solve (lin_session [2, 1, 0]) = Some (Inr \<lparr>shape = [3, 1], data = [5, 7 / 2, 3]\<rparr>)"
  by (simp add: solve_def lin_session_fields lin_step_backward_1 lin_step_backward_3
      reshape_rows_def assign_row_def numel_def)

lemma lin_rk_adaptive:
  assumes "2 \<le> length g"
  shows "rk_adaptive (\<lambda>i j. 0) fcn_lin g \<lparr>shape = [1], data = [5]\<rparr> () RK23 (1 / 10 ^ 8) (1 / 10 ^ 5)
    = solve (lin_session g)"
  using assms
  by (simp add: rk_adaptive_def lin_session_def init_def solver_setup_def RK23_def Let_def)

lemma lin_setup:
  assumes "2 \<le> length g"
  shows "init RK23 (1 / 10 ^ 8) (1 / 10 ^ 5) = Inr (s_solver (lin_session g))"
    and "solver_setup (s_solver (lin_session g)) (\<lambda>i j. 0) fcn_lin g \<lparr>shape = [1], data = [5]\<rparr> ()
      = Inr (lin_session g)"
  using assms
  by (simp_all add: lin_session_def init_def solver_setup_def RK23_def Let_def)

lemma decay_session_eq:
  "decay_session = \<lparr>s_solver = \<lparr>cls = RK23, atol = 0, rtol = 1 / 10 ^ 5, max_factor = 10,
       min_factor = 0.2, step_mult = 0.9, error_exponent = - 1 / 3\<rparr>,
     s_yshape = [1], s_y0 = [0], s_ts = [0, 1],
     s_func = func_forward fcn_decay [1] (), s_K = [[0], [0], [0], [0]],
     s_A = [[0, 0, 0], [1 / 2, 0, 0], [0, 3 / 4, 0]], s_B = [2 / 9, 1 / 3, 4 / 9],
     s_C = [0, 1 / 2, 3 / 4], s_E = [5 / 72, - 1 / 12, - 1 / 9, 1 / 8]\<rparr>"
  by (simp add: decay_session_def init_def solver_setup_def RK23_def torch_empty_def numel_def
      flatten_def upt_rec)

lemma decay_body:
  assumes "length r0 = 1"
  shows "single_step_body decay_session [0] t0 [0] t1 [r0, r1, r2, r3] h pr
   = Inr \<lparr>a_t1_achieved = (t0 + h > t1),
          a_hstep = (if t0 + h > t1 then t1 - t0 else h),
          a_tnew = t0 + (if t0 + h > t1 then t1 - t0 else h),
          a_ynew = [0], a_fnew = [0], a_K = [[0], [0], [0], [0]], a_errnorm = NaN,
          a_accepted = False, a_h = (if t0 + h > t1 then t1 - t0 else h) * (1 / 5)\<rparr>"
  using assms
  by (simp add: decay_session_eq body_eval eval_defs fcn_decay_def)

lemma decay_loop_diverges_aux:
  "single_step_loop ss f0 t0 y0 t1 K h pr = Some r \<Longrightarrow>
   ss = decay_session \<Longrightarrow> f0 = [0] \<Longrightarrow> y0 = [0] \<Longrightarrow>
   (\<exists>r0 r1 r2 r3. K = [r0, r1, r2, r3] \<and> length r0 = 1) \<Longrightarrow> False"
proof (induction rule: single_step_loop.raw_induct[rotated 1, consumes 1, case_names 1])
  case (1 loop ss f0 t0 y0 t1 K h pr r)
  from 1(6) obtain r0 r1 r2 r3 where K: "K = [r0, r1, r2, r3]" "length r0 = 1" by blast
  note b = decay_body[OF K(2), of t0 t1 r1 r2 r3 h pr]
  from 1(2) have "loop ss f0 t0 y0 t1 [[0], [0], [0], [0]]
      ((if t0 + h > t1 then t1 - t0 else h) * (1 / 5)) True = Some r"
    unfolding 1(3,4,5) K(1) b by simp
  from 1(1)[OF this 1(3,4,5)] show ?case by simp
qed

lemma decay_single_step_diverges:
  "single_step decay_session [[0], [0], [0], [0]] ([0], t0, [0], h) t1 = None"
proof (cases "single_step decay_session [[0], [0], [0], [0]] ([0], t0, [0], h) t1")
  case None
  then show ?thesis .
next
  case (Some r)
  then have "single_step_loop decay_session [0] t0 [0] t1 [[0], [0], [0], [0]] h False = Some r"
    by (simp add: single_step_def)
  from decay_loop_diverges_aux[OF this] show ?thesis by simp
qed

subsection \<open>The functions and the configurations of a run\<close>

lemma loop_reach:
  "single_step_loop ss f0 t0 y0 t1 K h pr = Some r \<Longrightarrow>
   reach ss i f0 t0 y0 K h pr \<Longrightarrow> t1 = s_ts ss ! i \<Longrightarrow>
   (case r of Inl e \<Rightarrow> True
    | Inr (st', fl, K') \<Rightarrow>
        \<exists>Kp hp prp a. reach ss i f0 t0 y0 Kp hp prp
          \<and> single_step_body ss f0 t0 y0 t1 Kp hp prp = Inr a \<and> a_accepted a
          \<and> st' = (a_fnew a, a_tnew a, a_ynew a, a_h a) \<and> fl = a_t1_achieved a \<and> K' = a_K a)"
proof (induction rule: single_step_loop.raw_induct[rotated 1, consumes 1, case_names 1])
  case (1 loop ss f0 t0 y0 t1 K h pr r)
  show ?case
  proof (cases "single_step_body ss f0 t0 y0 t1 K h pr")
    case (Inl e)
    with 1(2) show ?thesis by auto
  next
    case (Inr a)
    show ?thesis
    proof (cases "a_accepted a")
      case True
      with Inr 1(2) have "r = Inr ((a_fnew a, a_tnew a, a_ynew a, a_h a), a_t1_achieved a, a_K a)"
        by simp
      with Inr True 1(3) show ?thesis by (simp del: split_paired_Ex) blast
    next
      case False
      with Inr 1(2) have l: "loop ss f0 t0 y0 t1 (a_K a) (a_h a) True = Some r" by simp
      have "reach ss i f0 t0 y0 (a_K a) (a_h a) True"
        by (rule reach.rejected[OF 1(3) Inr[unfolded 1(4)] False])
      from 1(1)[OF l this 1(4)] show ?thesis .
    qed
  qed
qed

lemma step_reach:
  "step ss K st t1 = Some r \<Longrightarrow>
   reach ss i (fst st) (fst (snd st)) (fst (snd (snd st))) K (snd (snd (snd st))) False \<Longrightarrow>
   t1 = s_ts ss ! i \<Longrightarrow>
   (case r of Inl e \<Rightarrow> True
    | Inr (st2, K2) \<Rightarrow>
        \<exists>f t y Kp hp prp a. reach ss i f t y Kp hp prp
          \<and> single_step_body ss f t y t1 Kp hp prp = Inr a \<and> a_accepted a \<and> a_t1_achieved a
          \<and> st2 = (a_fnew a, a_tnew a, a_ynew a, a_h a) \<and> K2 = a_K a)"
proof (induction rule: step.raw_induct[rotated 1, consumes 1, case_names 1])
  case (1 stp ss K st t1 r)
  obtain f0 t0 y0 h where st: "st = (f0, t0, y0, h)" by (cases st) auto
  have rc: "reach ss i f0 t0 y0 K h False" using 1(3) st by simp
  show ?case
  proof (cases "single_step ss K st t1")
    case None
    with 1(2) show ?thesis by simp
  next
    case (Some q)
    show ?thesis
    proof (cases q)
      case (Inl e)
      with Some 1(2) show ?thesis by auto
    next
      case (Inr x)
      obtain st1 fl K1 where x: "x = (st1, fl, K1)" by (cases x)
      from Some Inr x st have "single_step_loop ss f0 t0 y0 t1 K h False = Some (Inr (st1, fl, K1))"
        by (simp add: single_step_def)
      from loop_reach[OF this rc 1(4)] obtain Kp hp prp a where
        a: "reach ss i f0 t0 y0 Kp hp prp" "single_step_body ss f0 t0 y0 t1 Kp hp prp = Inr a"
          "a_accepted a" "st1 = (a_fnew a, a_tnew a, a_ynew a, a_h a)" "fl = a_t1_achieved a"
          "K1 = a_K a"
        by auto
      show ?thesis
      proof (cases fl)
        case True
        with Some Inr x 1(2) have "r = Inr (st1, K1)" by simp
        with a True show ?thesis by (simp del: split_paired_Ex) blast
      next
        case False
        with Some Inr x 1(2) have s: "stp ss K1 st1 t1 = Some r" by simp
        have "reach ss i (a_fnew a) (a_tnew a) (a_ynew a) (a_K a) (a_h a) False"
          by (rule reach.accepted[OF a(1) a(2)[unfolded 1(4)] a(3)]) (use False a(5) in simp)
        then have "reach ss i (fst st1) (fst (snd st1)) (fst (snd (snd st1))) K1
            (snd (snd (snd st1))) False"
          using a(4,6) by simp
        from 1(1)[OF s this 1(4)] show ?thesis .
      qed
    qed
  qed
qed

lemma drop_eq_Cons:
  assumes "a # rest = drop i xs"
  shows "i < length xs" "a = xs ! i" "rest = drop (Suc i) xs"
proof -
  show l: "i < length xs" using assms by (cases "i < length xs") auto
  from Cons_nth_drop_Suc[OF l] assms have "a # rest = xs ! i # drop (Suc i) xs" by simp
  then show "a = xs ! i" "rest = drop (Suc i) xs" by simp_all
qed

lemma solve_loop_reach:
  "solve_loop ss K st grid = Some (Inr rows) \<Longrightarrow> grid = drop i (s_ts ss) \<Longrightarrow>
   (grid \<noteq> [] \<longrightarrow>
      reach ss i (fst st) (fst (snd st)) (fst (snd (snd st))) K (snd (snd (snd st))) False) \<Longrightarrow>
   \<forall>j < length grid. \<exists>f t y Kp hp prp a. reach ss (i + j) f t y Kp hp prp
      \<and> single_step_body ss f t y (s_ts ss ! (i + j)) Kp hp prp = Inr a
      \<and> a_accepted a \<and> a_t1_achieved a
      \<and> assign_row (length (s_y0 ss)) (a_ynew a) = Inr (rows ! j)"
proof (induction grid arbitrary: K st rows i)
  case Nil
  then show ?case by simp
next
  case (Cons t1 rest)
  note i = drop_eq_Cons[OF Cons.prems(2)]
  from solve_loop_Cons[OF Cons.prems(1)] obtain st2 K2 row rows' where
    r: "step ss K st t1 = Some (Inr (st2, K2))"
      "assign_row (length (s_y0 ss)) (fst (snd (snd st2))) = Inr row"
      "solve_loop ss K2 st2 rest = Some (Inr rows')" "rows = row # rows'"
    by blast
  have rc: "reach ss i (fst st) (fst (snd st)) (fst (snd (snd st))) K (snd (snd (snd st))) False"
    using Cons.prems(3) by simp
  from step_reach[OF r(1) rc i(2)] obtain f t y Kp hp prp a where
    a: "reach ss i f t y Kp hp prp" "single_step_body ss f t y t1 Kp hp prp = Inr a"
      "a_accepted a" "a_t1_achieved a" "st2 = (a_fnew a, a_tnew a, a_ynew a, a_h a)" "K2 = a_K a"
    by auto
  have row: "assign_row (length (s_y0 ss)) (a_ynew a) = Inr row" using r(2) a(5) by simp
  have nxt: "rest \<noteq> [] \<longrightarrow>
      reach ss (Suc i) (fst st2) (fst (snd st2)) (fst (snd (snd st2))) K2 (snd (snd (snd st2))) False"
  proof
    assume "rest \<noteq> []"
    then have "Suc i < length (s_ts ss)" using i(3) by simp
    from reach.next_point[OF a(1) a(2)[unfolded i(2)] a(3,4) row this]
    show "reach ss (Suc i) (fst st2) (fst (snd st2)) (fst (snd (snd st2))) K2
        (snd (snd (snd st2))) False"
      using a(5,6) by simp
  qed
  note ih = Cons.IH[OF r(3) i(3) nxt]
  show ?case
  proof (intro allI impI)
    fix j assume j: "j < length (t1 # rest)"
    show "\<exists>f t y Kp hp prp a. reach ss (i + j) f t y Kp hp prp
      \<and> single_step_body ss f t y (s_ts ss ! (i + j)) Kp hp prp = Inr a
      \<and> a_accepted a \<and> a_t1_achieved a
      \<and> assign_row (length (s_y0 ss)) (a_ynew a) = Inr (rows ! j)"
    proof (cases j)
      case 0
      with a(1,2,3,4) row r(4) i(2) show ?thesis by (simp del: split_paired_Ex) blast
    next
      case (Suc j')
      with j have "j' < length rest" by simp
      from ih[rule_format, OF this] Suc r(4) show ?thesis by simp
    qed
  qed
qed

lemma reach_shape:
  assumes "reach ss i f0 t0 y0 K h pr" and "ncols (s_K ss) = length (s_y0 ss)"
  shows "length y0 = length (s_y0 ss) \<and> ncols K = length (s_y0 ss)
    \<and> 1 \<le> i \<and> i < length (s_ts ss)"
  using assms
proof (induction rule: reach.induct)
  case (start ss t0 t1 rest f0)
  then show ?case by simp
next
  case (rejected ss i f0 t0 y0 K h pr a)
  then have "length y0 = ncols K" by simp
  from single_step_body_shape[OF rejected(2) this] rejected show ?case by simp
next
  case (accepted ss i f0 t0 y0 K h pr a)
  then have "length y0 = ncols K" by simp
  from single_step_body_shape[OF accepted(2) this] accepted show ?case by simp
next
  case (next_point ss i f0 t0 y0 K h pr a row)
  then have "length y0 = ncols K" by simp
  from single_step_body_shape[OF next_point(2) this] next_point show ?case by simp
qed

lemma solve_entries_reach:
  assumes su: "solver_setup sv mem fcn tgrid y params = Inr ss"
    and so: "solve ss = Some (Inr yt)"
  shows "\<forall>i. 0 < i \<and> i < length tgrid \<longrightarrow>
     (\<exists>f t v Kp hp prp a. reach ss i f t v Kp hp prp
        \<and> single_step_body ss f t v (s_ts ss ! i) Kp hp prp = Inr a
        \<and> a_accepted a \<and> a_t1_achieved a
        \<and> tensor_index yt i = Inr \<lparr>shape = shape y, data = a_ynew a\<rparr>)"
proof (intro allI impI)
  fix i assume i: "0 < i \<and> i < length tgrid"
  note s = solver_setup_Inr[OF su]
  from solve_Inr[OF so] obtain t0 t1 rest f0 rows where
    ts: "s_ts ss = t0 # t1 # rest" and f0: "s_func ss t0 (s_y0 ss) = Inr f0" and
    l: "solve_loop ss (s_K ss) (f0, t0, s_y0 ss, t1 - t0) (t1 # rest) = Some (Inr rows)" and
    rs: "reshape_rows (s_y0 ss # rows) (s_yshape ss) = Inr yt"
    by blast
  have y0: "s_y0 ss = data y" "s_yshape ss = shape y" using s by auto
  have wf: "length (data y) = numel (shape y)" using s_func_wf[OF su f0] y0 by simp
  have lts: "length (s_ts ss) = length tgrid" using s by (auto split: if_splits)
  have nc: "ncols (s_K ss) = length (s_y0 ss)" using s wf y0 by simp
  have r1: "reach ss 1 f0 t0 (s_y0 ss) (s_K ss) (t1 - t0) False"
    by (rule reach.start[OF ts f0])
  have g: "t1 # rest = drop 1 (s_ts ss)" using ts by simp
  have j: "i - 1 < length (t1 # rest)" using i lts ts by auto
  from solve_loop_reach[OF l g, rule_format, OF _ j] r1 obtain f t v Kp hp prp a where
    a: "reach ss (1 + (i - 1)) f t v Kp hp prp"
      "single_step_body ss f t v (s_ts ss ! (1 + (i - 1))) Kp hp prp = Inr a"
      "a_accepted a" "a_t1_achieved a"
      "assign_row (length (s_y0 ss)) (a_ynew a) = Inr (rows ! (i - 1))"
    by auto
  have ii: "1 + (i - 1) = i" using i by simp
  from reach_shape[OF a(1) nc] have "length v = ncols Kp" "ncols Kp = length (s_y0 ss)" by auto
  with single_step_body_shape[OF a(2)] have "length (a_ynew a) = length (s_y0 ss)" by simp
  with a(5) have row: "rows ! (i - 1) = a_ynew a" by (simp add: assign_row_def)
  from solve_loop_rows[OF l] have
    lr: "length rows = length (t1 # rest)" "\<forall>r \<in> set rows. length r = length (s_y0 ss)"
    by auto
  have all: "\<forall>r \<in> set (s_y0 ss # rows). length r = numel (shape y)"
    using lr(2) wf y0 by simp
  from reshape_rows_Inr[OF rs] all y0 have
    sh: "shape yt = length (s_y0 ss # rows) # shape y" "data yt = concat (s_y0 ss # rows)"
    by auto
  have "i < length (s_y0 ss # rows)" using i lr(1) lts ts by simp
  from tensor_index_rows[OF sh all this] i row
  have "tensor_index yt i = Inr \<lparr>shape = shape y, data = a_ynew a\<rparr>"
    by (cases i) auto
  with a(1,2,3,4) ii
  show "\<exists>f t v Kp hp prp a. reach ss i f t v Kp hp prp
        \<and> single_step_body ss f t v (s_ts ss ! i) Kp hp prp = Inr a
        \<and> a_accepted a \<and> a_t1_achieved a
        \<and> tensor_index yt i = Inr \<lparr>shape = shape y, data = a_ynew a\<rparr>"
    by (simp del: split_paired_Ex) blast
qed





subsection \<open>No error from the loops\<close>

lemma single_step_body_total:
  assumes wfs: "length (s_A ss) = s \<and> length (s_B ss) = s \<and> length (s_C ss) = s \<and> 1 \<le> s
      \<and> (\<forall>i < s. i \<le> length (s_A ss ! i)) \<and> length (s_E ss) = s + 1
      \<and> (\<forall>t v. length v = n \<longrightarrow> (\<exists>k. s_func ss t v = Inr k \<and> length k = n))"
    and sh: "length K = s + 1" "ncols K = n" "length y0 = n" "length f0 = n"
  shows "\<exists>a. single_step_body ss f0 t0 y0 t1 K h pr = Inr a \<and> length (a_K a) = s + 1
     \<and> ncols (a_K a) = n \<and> length (a_ynew a) = n \<and> length (a_fnew a) = n"
proof -
  let ?hs = "if t0 + h > t1 then t1 - t0 else h"
  from wfs have A: "length (s_A ss) = s" and B: "length (s_B ss) = s" and C: "length (s_C ss) = s"
    and s1: "1 \<le> s" and rows: "\<forall>i < s. i \<le> length (s_A ss ! i)"
    and E: "length (s_E ss) = s + 1"
    and fn: "\<forall>t v. length v = n \<longrightarrow> (\<exists>k. s_func ss t v = Inr k \<and> length k = n)"
    by simp_all
  from rk_step_total[OF A B C s1 rows sh(1) sh(2) sh(3) sh(4) fn, of t0 ?hs]
  obtain ynew fnew K' where
    r: "rk_step (s_func ss) t0 y0 f0 ?hs (s_A ss, s_B ss, s_C ss, K) = Inr (ynew, fnew, K')"
    by blast
  have "length y0 = ncols K" using sh by simp
  from rk_step_shape[OF r this] sh have
    shp: "length ynew = n" "ncols K' = n" "length K' = s + 1" by simp_all
  from rk_step_Inr[OF r] have "s_func ss (t0 + ?hs) ynew = Inr fnew" by blast
  with fn[rule_format, OF shp(1), of "t0 + ?hs"] have lf: "length fnew = n" by auto
  have "length K' = length (s_E ss)" using shp(3) E by simp
  from matmul_T_Inr[OF this, of "ncols K'"] obtain v where
    "matmul_T (ncols K') K' (s_E ss) = Inr v" by blast
  then have en: "error_norm ss K' ?hs = Inr (norm2 (smul ?hs v))" by (simp add: error_norm_def)
  from r en shp lf show ?thesis by (simp add: single_step_body_def Let_def)
qed

lemma single_step_loop_no_error:
  "single_step_loop ss f0 t0 y0 t1 K h pr = Some r \<Longrightarrow>
   length (s_A ss) = s \<and> length (s_B ss) = s \<and> length (s_C ss) = s \<and> 1 \<le> s
     \<and> (\<forall>i < s. i \<le> length (s_A ss ! i)) \<and> length (s_E ss) = s + 1
     \<and> (\<forall>t v. length v = n \<longrightarrow> (\<exists>k. s_func ss t v = Inr k \<and> length k = n)) \<Longrightarrow>
   length K = s + 1 \<Longrightarrow> ncols K = n \<Longrightarrow> length y0 = n \<Longrightarrow> length f0 = n \<Longrightarrow>
   (case r of Inl e \<Rightarrow> False
    | Inr (st', fl, K') \<Rightarrow>
        length (fst st') = n \<and> length (fst (snd (snd st'))) = n \<and> length K' = s + 1
        \<and> ncols K' = n)"
proof (induction rule: single_step_loop.raw_induct[rotated 1, consumes 1, case_names 1])
  case (1 loop ss f0 t0 y0 t1 K h pr r)
  from single_step_body_total[OF 1(3) 1(4) 1(5) 1(6) 1(7), of t0 t1 h pr] obtain a where
    a: "single_step_body ss f0 t0 y0 t1 K h pr = Inr a" "length (a_K a) = s + 1"
      "ncols (a_K a) = n" "length (a_ynew a) = n" "length (a_fnew a) = n"
    by blast
  show ?case
  proof (cases "a_accepted a")
    case True
    with a 1(2) show ?thesis by auto
  next
    case False
    with a 1(2) have l: "loop ss f0 t0 y0 t1 (a_K a) (a_h a) True = Some r" by simp
    from 1(1)[OF l 1(3) a(2) a(3) 1(6) 1(7)] show ?thesis .
  qed
qed

lemma step_no_error:
  "step ss K st t1 = Some r \<Longrightarrow>
   length (s_A ss) = s \<and> length (s_B ss) = s \<and> length (s_C ss) = s \<and> 1 \<le> s
     \<and> (\<forall>i < s. i \<le> length (s_A ss ! i)) \<and> length (s_E ss) = s + 1
     \<and> (\<forall>t v. length v = n \<longrightarrow> (\<exists>k. s_func ss t v = Inr k \<and> length k = n)) \<Longrightarrow>
   length K = s + 1 \<Longrightarrow> ncols K = n \<Longrightarrow> length (fst (snd (snd st))) = n \<Longrightarrow>
   length (fst st) = n \<Longrightarrow>
   (case r of Inl e \<Rightarrow> False
    | Inr (st', K') \<Rightarrow>
        length (fst st') = n \<and> length (fst (snd (snd st'))) = n \<and> length K' = s + 1
        \<and> ncols K' = n)"
proof (induction rule: step.raw_induct[rotated 1, consumes 1, case_names 1])
  case (1 stp ss K st t1 r)
  obtain f0 t0 y0 h where st: "st = (f0, t0, y0, h)" by (cases st) auto
  show ?case
  proof (cases "single_step ss K st t1")
    case None
    with 1(2) show ?thesis by simp
  next
    case (Some q)
    with st have l: "single_step_loop ss f0 t0 y0 t1 K h False = Some q"
      by (simp add: single_step_def)
    from 1(6,7) st have ly: "length y0 = n" "length f0 = n" by simp_all
    note ne = single_step_loop_no_error[OF l 1(3) 1(4) 1(5) ly]
    then obtain st1 fl K1 where q: "q = Inr (st1, fl, K1)"
      by (cases q) (auto split: prod.splits)
    with ne have sh: "length (fst st1) = n" "length (fst (snd (snd st1))) = n"
      "length K1 = s + 1" "ncols K1 = n" by simp_all
    show ?thesis
    proof (cases fl)
      case True
      with Some q 1(2) sh show ?thesis by auto
    next
      case False
      with Some q 1(2) have "stp ss K1 st1 t1 = Some r" by simp
      from 1(1)[OF this 1(3) sh(3) sh(4) sh(2) sh(1)] show ?thesis .
    qed
  qed
qed

lemma solve_loop_no_error:
  "solve_loop ss K st grid = Some r \<Longrightarrow>
   length (s_A ss) = s \<and> length (s_B ss) = s \<and> length (s_C ss) = s \<and> 1 \<le> s
     \<and> (\<forall>i < s. i \<le> length (s_A ss ! i)) \<and> length (s_E ss) = s + 1
     \<and> (\<forall>t v. length v = n \<longrightarrow> (\<exists>k. s_func ss t v = Inr k \<and> length k = n)) \<Longrightarrow>
   length (s_y0 ss) = n \<Longrightarrow>
   length K = s + 1 \<Longrightarrow> ncols K = n \<Longrightarrow> length (fst (snd (snd st))) = n \<Longrightarrow>
   length (fst st) = n \<Longrightarrow> \<exists>rows. r = Inr rows"
proof (induction grid arbitrary: K st r)
  case Nil
  then show ?case by auto
next
  case (Cons t1 rest)
  show ?case
  proof (cases "step ss K st t1")
    case None
    with Cons.prems(1) show ?thesis by simp
  next
    case (Some q)
    note ne = step_no_error[OF Some Cons.prems(2) Cons.prems(4) Cons.prems(5) Cons.prems(6)
        Cons.prems(7)]
    then obtain st2 K2 where q: "q = Inr (st2, K2)" by (cases q) (auto split: prod.splits)
    with ne have sh: "length (fst st2) = n" "length (fst (snd (snd st2))) = n"
      "length K2 = s + 1" "ncols K2 = n" by simp_all
    have ar: "assign_row (length (s_y0 ss)) (fst (snd (snd st2))) = Inr (fst (snd (snd st2)))"
      using sh(2) Cons.prems(3) by (simp add: assign_row_def)
    show ?thesis
    proof (cases "solve_loop ss K2 st2 rest")
      case None
      with Some q ar Cons.prems(1) show ?thesis by simp
    next
      case (Some q')
      from Cons.IH[OF Some Cons.prems(2) Cons.prems(3) sh(3) sh(4) sh(2) sh(1)]
      obtain rows where "q' = Inr rows" by blast
      with Some \<open>step ss K st t1 = Some q\<close> q ar Cons.prems(1) show ?thesis by auto
    qed
  qed
qed

lemma solve_no_error:
  assumes i: "init c atl rtl = Inr sv" and c: "c = RK23 \<or> c = RK45"
    and su: "solver_setup sv mem fcn tgrid y params = Inr ss"
    and wf: "wf_tensor y" and ne: "0 < numel (shape y)"
    and fc: "\<forall>t yy. shape yy = shape y \<and> wf_tensor yy \<longrightarrow>
               length (data (fcn t yy params)) = numel (shape y)"
  shows "solve ss = None \<or> (\<exists>yt. solve ss = Some (Inr yt))"
proof -
  let ?n = "numel (shape y)"
  note s = solver_setup_Inr[OF su]
  from init_Inr[OF i] have cl: "cls sv = c" by auto
  from s obtain s where st: "n_stages (cls sv) = Some s" and
    K: "s_K ss = torch_empty mem (s + 1) ?n" by blast
  have tabs: "tab_A c = Some (s_A ss)" "tab_B c = Some (s_B ss)" "tab_C c = Some (s_C ss)"
    "tab_E c = Some (s_E ss)" "n_stages c = Some s"
    using s st cl by simp_all
  have tab: "length (s_A ss) = s \<and> length (s_B ss) = s \<and> length (s_C ss) = s \<and> 1 \<le> s
      \<and> (\<forall>i < s. i \<le> length (s_A ss ! i)) \<and> length (s_E ss) = s + 1"
    using c
  proof
    assume "c = RK23"
    with tabs have "s_A ss = [[0, 0, 0], [1 / 2, 0, 0], [0, 3 / 4, 0]]"
      "s_B ss = [2 / 9, 1 / 3, 4 / 9]" "s_C ss = [0, 1 / 2, 3 / 4]"
      "s_E ss = [5 / 72, - 1 / 12, - 1 / 9, 1 / 8]" "s = 3"
      by (simp_all add: RK23_def)
    then show ?thesis by (simp add: nth_Cons split: nat.splits)
  next
    assume "c = RK45"
    with tabs have "s_A ss = [[0, 0, 0, 0, 0], [1 / 5, 0, 0, 0, 0], [3 / 40, 9 / 40, 0, 0, 0],
        [44 / 45, - 56 / 15, 32 / 9, 0, 0],
        [19372 / 6561, - 25360 / 2187, 64448 / 6561, - 212 / 729, 0],
        [9017 / 3168, - 355 / 33, 46732 / 5247, 49 / 176, - 5103 / 18656]]"
      "s_B ss = [35 / 384, 0, 500 / 1113, 125 / 192, - 2187 / 6784, 11 / 84]"
      "s_C ss = [0, 1 / 5, 3 / 10, 4 / 5, 8 / 9, 1]"
      "s_E ss = [- 71 / 57600, 0, 71 / 16695, - 71 / 1920, 17253 / 339200, - 22 / 525, 1 / 40]"
      "s = 6"
      by (simp_all add: RK45_def)
    then show ?thesis by (simp add: nth_Cons split: nat.splits)
  qed
  have fn: "\<forall>t v. length v = ?n \<longrightarrow> (\<exists>k. s_func ss t v = Inr k \<and> length k = ?n)"
  proof (intro allI impI)
    fix t and v :: vec assume v: "length v = ?n"
    then have w: "shape \<lparr>shape = shape y, data = v\<rparr> = shape y \<and> wf_tensor \<lparr>shape = shape y, data = v\<rparr>"
      by (simp add: wf_tensor_def)
    from fc[rule_format, OF w] have "length (data (fcn t \<lparr>shape = shape y, data = v\<rparr> params)) = ?n"
      "length (data (fcn (- t) \<lparr>shape = shape y, data = v\<rparr> params)) = ?n"
      using fc[rule_format, OF w, of "- t"] by simp_all
    with s v show "\<exists>k. s_func ss t v = Inr k \<and> length k = ?n"
      by (auto simp: func_forward_def func_backward_def reshape_def flatten_def vneg_def)
  qed
  from tab fn have wfs: "length (s_A ss) = s \<and> length (s_B ss) = s \<and> length (s_C ss) = s \<and> 1 \<le> s
      \<and> (\<forall>i < s. i \<le> length (s_A ss ! i)) \<and> length (s_E ss) = s + 1
      \<and> (\<forall>t v. length v = ?n \<longrightarrow> (\<exists>k. s_func ss t v = Inr k \<and> length k = ?n))"
    by simp
  have y0: "length (s_y0 ss) = ?n" using s wf by (simp add: wf_tensor_def)
  have lK: "length (s_K ss) = s + 1" using K by (simp add: torch_empty_def)
  have nK: "ncols (s_K ss) = ?n" using s by simp
  have "2 \<le> length (s_ts ss)" using s by (auto split: if_splits)
  then obtain t0 t1 rest where ts: "s_ts ss = t0 # t1 # rest"
    by (cases "s_ts ss"; cases "tl (s_ts ss)") auto
  from fn y0 obtain f0 where f0: "s_func ss t0 (s_y0 ss) = Inr f0" "length f0 = ?n" by blast
  show ?thesis
  proof (cases "solve_loop ss (s_K ss) (f0, t0, s_y0 ss, t1 - t0) (t1 # rest)")
    case None
    with ts f0 have "solve ss = None" by (simp add: solve_def del: solve_loop.simps)
    then show ?thesis by simp
  next
    case (Some q)
    from solve_loop_no_error[OF Some wfs y0 lK nK] y0 f0(2) obtain rows where
      q: "q = Inr rows" by auto
    from solve_loop_rows[OF Some[unfolded q]] have
      rl: "\<forall>r \<in> set rows. length r = ?n" using y0 by simp
    then have "\<forall>r \<in> set (s_y0 ss # rows). length r = ?n" using y0 by simp
    from concat_length[OF this] have "length (concat (s_y0 ss # rows)) mod ?n = 0" by simp
    with ne s have "\<exists>yt. reshape_rows (s_y0 ss # rows) (s_yshape ss) = Inr yt"
      by (simp add: reshape_rows_def Let_def)
    with ts f0 Some q have "\<exists>yt. solve ss = Some (Inr yt)"
      by (simp add: solve_def del: solve_loop.simps)
    then show ?thesis by simp
  qed
qed










subsection \<open>The single step kernel\<close>

text \<open>
  Claim C3. Take any tableau of \<open>s \<ge> 1\<close> stages (\<open>A\<close> with \<open>s\<close> rows, row \<open>i\<close> having at
  least \<open>i\<close> entries, which covers the \<open>(s, s)\<close> matrix of \<^verbatim>\<open>RK23\<close> and the \<open>(6, 5)\<close>
  matrix of \<^verbatim>\<open>RK45\<close>; \<open>B\<close> and \<open>C\<close> with \<open>s\<close> entries), a stage buffer of shape
  \<open>(s + 1, n)\<close>, a state \<open>y\<close> and a derivative \<open>f\<close> of \<open>n\<close> components, any time \<open>t\<close> and step
  size \<open>h\<close>, and a derivative function that returns \<open>n\<close> components for \<open>n\<close> components.
  Then \<^verbatim>\<open>rk_step\<close> returns, and afterwards row 0 of the buffer is \<open>f\<close>, each row \<open>i\<close> with
  \<open>1 \<le> i < s\<close> is the derivative at time \<open>t + C[i] * h\<close> of the state
  \<open>y + h * (K[:i].T @ A[i][:i])\<close>, and row \<open>s\<close> is the derivative \<open>fnew\<close> at the new state;
  the results are \<open>ynew = y + h * (K[:-1].T @ B)\<close> and \<open>fnew = func(t + h, ynew)\<close>. The
  kernel is a function of its arguments and evaluates each stage once.
\<close>

theorem rk_step_fills_stages:
  assumes "length A = s" and "length B = s" and "length C = s" and "1 \<le> s"
    and "\<forall>i < s. i \<le> length (A ! i)"
    and "length K = s + 1" and "ncols K = n" and "length y = n" and "length f = n"
    and "\<forall>t v. length v = n \<longrightarrow> (\<exists>k. func t v = Inr k \<and> length k = n)"
  shows "\<exists>ynew fnew K'. rk_step func t y f h (A, B, C, K) = Inr (ynew, fnew, K')
     \<and> length K' = s + 1 \<and> ncols K' = n \<and> length ynew = n \<and> length fnew = n
     \<and> K' ! 0 = f
     \<and> (\<forall>i. 1 \<le> i \<and> i < s \<longrightarrow>
          (\<exists>m ydy. matmul_T n (take i K') (take i (A ! i)) = Inr m
             \<and> tadd y (smul h m) = Inr ydy
             \<and> func (t + C ! i * h) ydy = Inr (K' ! i)))
     \<and> (\<exists>m. matmul_T n (butlast K') B = Inr m \<and> tadd y (smul h m) = Inr ynew)
     \<and> func (t + h) ynew = Inr fnew
     \<and> K' ! s = fnew"
proof -
  from rk_step_total[OF assms] obtain ynew fnew K' where
    r: "rk_step func t y f h (A, B, C, K) = Inr (ynew, fnew, K')" by blast
  from rk_step_rows[OF r assms(1,3,6,4)] assms(7) have
    c1: "length K' = s + 1" "ncols K' = n" and
    c2: "length f = n \<longrightarrow> K' ! 0 = f" and
    c3: "\<forall>i. 1 \<le> i \<and> i < s \<longrightarrow>
          (\<exists>m ydy k. matmul_T n (take i K') (take i (A ! i)) = Inr m
             \<and> tadd y (smul h m) = Inr ydy
             \<and> func (t + C ! i * h) ydy = Inr k
             \<and> assign_row n k = Inr (K' ! i))" and
    c4: "\<exists>m. matmul_T n (butlast K') B = Inr m \<and> tadd y (smul h m) = Inr ynew" and
    c5: "func (t + h) ynew = Inr fnew" and
    c6: "assign_row n fnew = Inr (K' ! s)"
    by auto
  have ly: "length ynew = n" using rk_step_shape[OF r] assms(7,8) by simp
  have lf: "length fnew = n" using assms(10)[rule_format, OF ly, of "t + h"] c5 by auto
  have r0: "K' ! 0 = f" using c2 assms(9) by simp
  have rs: "K' ! s = fnew" using c6 lf by (simp add: assign_row_def)
  have st: "\<forall>i. 1 \<le> i \<and> i < s \<longrightarrow>
          (\<exists>m ydy. matmul_T n (take i K') (take i (A ! i)) = Inr m
             \<and> tadd y (smul h m) = Inr ydy
             \<and> func (t + C ! i * h) ydy = Inr (K' ! i))"
  proof (intro allI impI)
    fix i assume i: "1 \<le> i \<and> i < s"
    with c3 obtain m ydy k where
      m: "matmul_T n (take i K') (take i (A ! i)) = Inr m" "tadd y (smul h m) = Inr ydy"
        "func (t + C ! i * h) ydy = Inr k" "assign_row n k = Inr (K' ! i)"
      by blast
    have "length m = n" by (rule matmul_T_length[OF m(1)])
    then have "length ydy = n" using tadd_length[OF m(2)] assms(8) by (simp add: smul_def)
    from assms(10)[rule_format, OF this, of "t + C ! i * h"] m(3) have "length k = n" by auto
    with m(4) have "K' ! i = k" by (simp add: assign_row_def)
    with m show "\<exists>m ydy. matmul_T n (take i K') (take i (A ! i)) = Inr m
             \<and> tadd y (smul h m) = Inr ydy
             \<and> func (t + C ! i * h) ydy = Inr (K' ! i)"
      by blast
  qed
  show ?thesis
    apply (rule exI[of _ ynew], rule exI[of _ fnew], rule exI[of _ K'])
    apply (intro conjI)
    by (rule r c1 ly lf r0 st c4 c5 rs)+
qed

lemma decay_kernel_total:
  "\<forall>t v. length v = 2 \<longrightarrow>
     (\<exists>k. func_forward fcn_decay [2] () t v = Inr k \<and> length k = 2)"
  by (simp add: func_forward_def reshape_def numel_def flatten_def fcn_decay_def)

lemma decay_kernel_step:
  "rk_step (func_forward fcn_decay [2] ()) 0 [1, - 2] [- 1, 2] 1
     (the (tab_A RK45), the (tab_B RK45), the (tab_C RK45), torch_empty (\<lambda>i j. 0) 7 2)
   = Inr ([221 / 600, - (221 / 300)], [- (221 / 600), 221 / 300],
      [[- 1, 2], [- (4 / 5), 8 / 5], [- (149 / 200), 149 / 100],
       [- (9 / 25), 18 / 25], [- (2017 / 18225), 4034 / 18225],
       [- (3 / 55), 6 / 55], [- (221 / 600), 221 / 300]])"
  by (simp add: RK45_def torch_empty_def eval_defs fcn_decay_def)

theorem rk_step_fills_stages_witness:
  "map length (the (tab_A RK45)) = [5, 5, 5, 5, 5, 5]
   \<and> length (the (tab_B RK45)) = 6 \<and> length (the (tab_C RK45)) = 6
   \<and> length (torch_empty (\<lambda>i j. 0) 7 2) = 6 + 1 \<and> ncols (torch_empty (\<lambda>i j. 0) 7 2) = 2
   \<and> rk_step (func_forward fcn_decay [2] ()) 0 [1, - 2] [- 1, 2] 1
        (the (tab_A RK45), the (tab_B RK45), the (tab_C RK45), torch_empty (\<lambda>i j. 0) 7 2)
      = Inr ([221 / 600, - (221 / 300)], [- (221 / 600), 221 / 300],
          [[- 1, 2], [- (4 / 5), 8 / 5], [- (149 / 200), 149 / 100],
           [- (9 / 25), 18 / 25], [- (2017 / 18225), 4034 / 18225],
           [- (3 / 55), 6 / 55], [- (221 / 600), 221 / 300]])
   \<and> (\<exists>m ydy. matmul_T 2
            (take 3 [[- 1, 2], [- (4 / 5), 8 / 5], [- (149 / 200), 149 / 100],
               [- (9 / 25), 18 / 25], [- (2017 / 18225), 4034 / 18225],
               [- (3 / 55), 6 / 55], [- (221 / 600), 221 / 300]])
            (take 3 (the (tab_A RK45) ! 3)) = Inr m
         \<and> tadd [1, - 2] (smul 1 m) = Inr ydy
         \<and> func_forward fcn_decay [2] () (0 + the (tab_C RK45) ! 3 * 1) ydy
             = Inr [- (9 / 25), 18 / 25])
   \<and> func_forward fcn_decay [2] () (0 + 1) [221 / 600, - (221 / 300)]
       = Inr [- (221 / 600), 221 / 300]"
proof -
  let ?A = "the (tab_A RK45)" and ?B = "the (tab_B RK45)" and ?C = "the (tab_C RK45)"
  let ?K = "torch_empty (\<lambda>i j. 0) 7 2"
  let ?K' = "[[- 1, 2], [- (4 / 5), 8 / 5], [- (149 / 200), 149 / 100],
           [- (9 / 25), 18 / 25], [- (2017 / 18225), 4034 / 18225],
           [- (3 / 55), 6 / 55], [- (221 / 600), 221 / 300 :: real]]"
  have ml: "map length ?A = [5, 5, 5, 5, 5, 5]" by (simp add: RK45_def)
  have h: "length ?A = 6" "length ?B = 6" "length ?C = 6" "(1::nat) \<le> 6"
    by (simp_all add: RK45_def)
  have rows: "\<forall>i < 6. i \<le> length (?A ! i)"
  proof (intro allI impI)
    fix i :: nat assume "i < 6"
    then have "length (?A ! i) = 5" using nth_map[of i ?A length] ml h(1)
      by (cases i rule: nat.exhaust) (auto simp: RK45_def nth_Cons split: nat.splits)
    with \<open>i < 6\<close> show "i \<le> length (?A ! i)" by simp
  qed
  have k: "length ?K = 6 + 1" "ncols ?K = 2" "length [1, - 2 :: real] = 2"
    "length [- 1, 2 :: real] = 2"
    by (simp_all add: torch_empty_def ncols_def upt_rec)
  from rk_step_fills_stages[OF h rows k decay_kernel_total, of 0 1]
  obtain ynew fnew K' where
    r: "rk_step (func_forward fcn_decay [2] ()) 0 [1, - 2] [- 1, 2] 1 (?A, ?B, ?C, ?K)
        = Inr (ynew, fnew, K')" and
    st: "\<forall>i. 1 \<le> i \<and> i < 6 \<longrightarrow>
          (\<exists>m ydy. matmul_T 2 (take i K') (take i (?A ! i)) = Inr m
             \<and> tadd [1, - 2] (smul 1 m) = Inr ydy
             \<and> func_forward fcn_decay [2] () (0 + ?C ! i * 1) ydy = Inr (K' ! i))" and
    fn: "func_forward fcn_decay [2] () (0 + 1) ynew = Inr fnew"
    by blast
  have "Inr (ynew, fnew, K')
      = (Inr ([221 / 600, - (221 / 300)], [- (221 / 600), 221 / 300], ?K')
          :: error + vec \<times> vec \<times> mat)"
    by (rule trans[OF r[symmetric] decay_kernel_step])
  then have e: "ynew = [221 / 600, - (221 / 300)]"
    "fnew = [- (221 / 600), 221 / 300]" "K' = ?K'"
    by auto
  from st[rule_format, of 3] have s3:
    "\<exists>m ydy. matmul_T 2 (take 3 ?K') (take 3 (?A ! 3)) = Inr m
         \<and> tadd [1, - 2] (smul 1 m) = Inr ydy
         \<and> func_forward fcn_decay [2] () (0 + ?C ! 3 * 1) ydy = Inr [- (9 / 25), 18 / 25]"
    unfolding e by simp
  show ?thesis
    apply (intro conjI)
    by (rule ml h(2) h(3) k(1) k(2) decay_kernel_step s3 fn[unfolded e])+
qed

subsection \<open>Error control\<close>



subsection \<open>Step size adaptation\<close>

text \<open>
  Claim C4, as amended. For a solver made by \<^verbatim>\<open>__init__\<close> from a class of estimator order
  \<open>k\<close> (so \<open>max_factor = 10\<close>, \<open>min_factor = 0.2\<close>, \<open>step_mult = 0.9\<close> and the exponent
  \<open>-1/(k+1)\<close>) and every attempt \<open>a\<close> of the stepping loop:
  an accepted, non-terminal attempt multiplies \<open>h\<close> by the factor
  \<open>min(10, 0.9 * errnorm ** (-1/(k+1)))\<close>, which is 10 when the error norm is zero (and
  when it is negative, where the power is \<^verbatim>\<open>nan\<close>), and this factor is capped at 1.0
  when the previous attempt of the same search was rejected;
  an accepted terminal attempt leaves \<open>h\<close> unchanged;
  a rejected attempt sets \<open>h\<close> to \<open>hstep * max(0.2, 0.9 * errnorm ** (-1/(k+1)))\<close>, which
  is \<open>hstep * 0.2\<close> for a non-finite error norm, and the loop goes on from the same
  \<open>f0\<close>, \<open>t0\<close>, \<open>y0\<close> with the updated stage buffer, the new \<open>h\<close> and the rejection
  recorded.
\<close>

theorem step_size_adaptation:
  assumes "init c atl rtl = Inr (s_solver ss)" and "error_estimator_order c = Some k"
    and "single_step_body ss f0 t0 y0 t1 K h pr = Inr a"
  shows
    "(a_accepted a \<and> \<not> a_t1_achieved a \<longrightarrow>
        (\<exists>r. a_errnorm a = Fin r \<and> r < 1
           \<and> a_h a = h * (let factor = (if r = 0 then 10
                                        else if r < 0 then 10
                                        else min 10 (9 / 10 * r powr (- 1 / (real k + 1))))
                          in if pr then min 1 factor else factor)))
     \<and> (a_accepted a \<and> a_t1_achieved a \<longrightarrow> a_h a = h)
     \<and> (\<not> a_accepted a \<longrightarrow>
          a_h a = a_hstep a * (case a_errnorm a of
                                 Fin r \<Rightarrow> max (1 / 5) (9 / 10 * r powr (- 1 / (real k + 1)))
                               | PInf \<Rightarrow> 1 / 5
                               | NaN \<Rightarrow> 1 / 5)
          \<and> single_step_loop ss f0 t0 y0 t1 K h pr
              = single_step_loop ss f0 t0 y0 t1 (a_K a) (a_h a) True)"
proof -
  from init_Inr[OF assms(1)] assms(2) have
    sv: "s_solver ss = \<lparr>cls = c, atol = atl, rtol = rtl, max_factor = 10, min_factor = 0.2,
            step_mult = 0.9, error_exponent = - 1 / (real k + 1)\<rparr>"
    by auto
  note b = single_step_body_Inr[OF assms(3)]
  have c1: "a_accepted a \<and> \<not> a_t1_achieved a \<longrightarrow>
        (\<exists>r. a_errnorm a = Fin r \<and> r < 1
           \<and> a_h a = h * (let factor = (if r = 0 then 10
                                        else if r < 0 then 10
                                        else min 10 (9 / 10 * r powr (- 1 / (real k + 1))))
                          in if pr then min 1 factor else factor))"
  proof
    assume acc: "a_accepted a \<and> \<not> a_t1_achieved a"
    with b have x: "xless1 (a_errnorm a)" by auto
    then obtain r where r: "a_errnorm a = Fin r" "r < 1" by (auto simp: xless1_iff)
    from b acc have "a_h a = h * (if pr then min 1 (grow_factor (s_solver ss) (a_errnorm a))
                         else grow_factor (s_solver ss) (a_errnorm a))"
      by auto
    with r sv show "\<exists>r. a_errnorm a = Fin r \<and> r < 1
           \<and> a_h a = h * (let factor = (if r = 0 then 10
                                        else if r < 0 then 10
                                        else min 10 (9 / 10 * r powr (- 1 / (real k + 1))))
                          in if pr then min 1 factor else factor)"
      by (simp add: grow_factor_def Let_def)
  qed
  have c2: "a_accepted a \<and> a_t1_achieved a \<longrightarrow> a_h a = h" using b by auto
  have c3: "\<not> a_accepted a \<longrightarrow>
          a_h a = a_hstep a * (case a_errnorm a of
                                 Fin r \<Rightarrow> max (1 / 5) (9 / 10 * r powr (- 1 / (real k + 1)))
                               | PInf \<Rightarrow> 1 / 5
                               | NaN \<Rightarrow> 1 / 5)
          \<and> single_step_loop ss f0 t0 y0 t1 K h pr
              = single_step_loop ss f0 t0 y0 t1 (a_K a) (a_h a) True"
  proof
    assume rej: "\<not> a_accepted a"
    from b rej have "a_h a = a_hstep a * shrink_factor (s_solver ss) (a_errnorm a)" by auto
    then have "a_h a = a_hstep a * (case a_errnorm a of
                                 Fin r \<Rightarrow> max (1 / 5) (9 / 10 * r powr (- 1 / (real k + 1)))
                               | PInf \<Rightarrow> 1 / 5
                               | NaN \<Rightarrow> 1 / 5)"
      using sv by (cases "a_errnorm a") (simp_all add: shrink_factor_def)
    moreover have "single_step_loop ss f0 t0 y0 t1 K h pr
              = single_step_loop ss f0 t0 y0 t1 (a_K a) (a_h a) True"
      using assms(3) rej by (subst single_step_loop.simps) simp
    ultimately show "a_h a = a_hstep a * (case a_errnorm a of
                                 Fin r \<Rightarrow> max (1 / 5) (9 / 10 * r powr (- 1 / (real k + 1)))
                               | PInf \<Rightarrow> 1 / 5
                               | NaN \<Rightarrow> 1 / 5)
          \<and> single_step_loop ss f0 t0 y0 t1 K h pr
              = single_step_loop ss f0 t0 y0 t1 (a_K a) (a_h a) True"
      by blast
  qed
  show ?thesis using c1 c2 c3 by blast
qed

theorem step_size_adaptation_witness:
  "init RK23 18 0 = Inr (s_solver jump_session) \<and> error_estimator_order RK23 = Some 2
   \<and> single_step_body jump_session [0] 0 [0] 2 [[0], [0], [0], [72]] (9 / 5) True
     = Inr \<lparr>a_t1_achieved = False, a_hstep = 9 / 5, a_tnew = 9 / 5, a_ynew = [0],
            a_fnew = [0], a_K = [[0], [0], [0], [0]], a_errnorm = Fin 0, a_accepted = True,
            a_h = 9 / 5\<rparr>
   \<and> (\<exists>r. Fin 0 = Fin r \<and> r < 1
          \<and> (9 / 5 :: real) = 9 / 5 * (let factor = (if r = 0 then 10
                                        else if r < 0 then 10
                                        else min 10 (9 / 10 * r powr (- 1 / (real 2 + 1))))
                          in if True then min 1 factor else factor))"
  using step_size_adaptation[of RK23 18 0 jump_session 2 "[0]" 0 "[0]" 2
      "[[0], [0], [0], [72]]" "9 / 5" True
      "\<lparr>a_t1_achieved = False, a_hstep = 9 / 5, a_tnew = 9 / 5, a_ynew = [0],
            a_fnew = [0], a_K = [[0], [0], [0], [0]], a_errnorm = Fin 0, a_accepted = True,
            a_h = 9 / 5\<rparr>"]
    jump_init jump_body_second
  by (simp add: RK23_def)

text \<open>
  The claim as stated, without the cap, fails: in the example the attempt with \<open>h = 9/5\<close>
  follows a rejected one, is accepted with error norm zero and is not terminal, and it
  leaves \<open>h\<close> at \<open>9/5\<close> instead of multiplying it by \<open>max_factor\<close>.
\<close>

theorem growth_factor_counterexample:
  "single_step_body jump_session [0] 0 [0] 2 [[0], [0], [0], [72]] (9 / 5) True
     = Inr \<lparr>a_t1_achieved = False, a_hstep = 9 / 5, a_tnew = 9 / 5, a_ynew = [0],
            a_fnew = [0], a_K = [[0], [0], [0], [0]], a_errnorm = Fin 0, a_accepted = True,
            a_h = 9 / 5\<rparr>
   \<and> (9 / 5 :: real) \<noteq> 9 / 5 * max_factor (s_solver jump_session)"
proof -
  have "max_factor (s_solver jump_session) = 10" by (simp add: jump_session_eq)
  then show ?thesis by (simp add: jump_body_second)
qed

subsection \<open>Reaching the next grid point\<close>

text \<open>
  Claim C5, as amended. In an attempt, the proposal overshoots when \<open>t0 + h > t1\<close>, strictly;
  then the step used is \<open>t1 - t0\<close> and the attempt is marked terminal; otherwise the step used
  is \<open>h\<close> and the attempt is not marked. The new time is computed as \<open>t0\<close> plus the step used.
  The loop of \<^verbatim>\<open>_step\<close> ends exactly when \<^verbatim>\<open>_single_step\<close> returns an accepted attempt
  that was marked terminal, that is, whose proposal overshot strictly, and \<^verbatim>\<open>solve\<close> records
  the value of the state returned by that loop for the grid point: whenever \<^verbatim>\<open>solve\<close>
  returns, each entry \<open>j > 0\<close> of the result is the value of an accepted attempt of the run
  towards the grid point \<open>j\<close> whose proposal overshot strictly and whose step was clamped.
\<close>

theorem interval_termination:
  "(single_step_body ss f0 t0 y0 t1 K h pr = Inr a \<longrightarrow>
       a_t1_achieved a = (t0 + h > t1)
       \<and> a_hstep a = (if t0 + h > t1 then t1 - t0 else h)
       \<and> a_tnew a = t0 + a_hstep a)
   \<and> (single_step ss K (f0, t0, y0, h) t1 = Some (Inr (st1, fl, K1)) \<longrightarrow>
        step ss K (f0, t0, y0, h) t1 = (if fl then Some (Inr (st1, K1)) else step ss K1 st1 t1)
        \<and> (\<exists>Kp hp prp b. single_step_body ss f0 t0 y0 t1 Kp hp prp = Inr b \<and> a_accepted b
              \<and> fl = (t0 + hp > t1) \<and> a_hstep b = (if fl then t1 - t0 else hp)
              \<and> st1 = (a_fnew b, t0 + a_hstep b, a_ynew b, a_h b)))
   \<and> (solve_loop ss K (f0, t0, y0, h) (t1 # rest) = Some (Inr rows) \<longrightarrow>
        (\<exists>st2 K2 row rows'. step ss K (f0, t0, y0, h) t1 = Some (Inr (st2, K2))
           \<and> assign_row (length (s_y0 ss)) (fst (snd (snd st2))) = Inr row
           \<and> solve_loop ss K2 st2 rest = Some (Inr rows')
           \<and> rows = row # rows'))
   \<and> (solver_setup sv mem fcn tgrid y params = Inr ss \<and> solve ss = Some (Inr yt) \<longrightarrow>
        (\<forall>j. 0 < j \<and> j < length tgrid \<longrightarrow>
           (\<exists>f t v Kp hp prp b. reach ss j f t v Kp hp prp
              \<and> single_step_body ss f t v (s_ts ss ! j) Kp hp prp = Inr b
              \<and> a_accepted b \<and> t + hp > s_ts ss ! j \<and> a_hstep b = s_ts ss ! j - t
              \<and> tensor_index yt j = Inr \<lparr>shape = shape y, data = a_ynew b\<rparr>)))"
proof (intro conjI impI)
  assume b: "single_step_body ss f0 t0 y0 t1 K h pr = Inr a"
  note f = single_step_body_Inr[OF b]
  show "a_t1_achieved a = (t0 + h > t1)" using f by auto
  show "a_hstep a = (if t0 + h > t1 then t1 - t0 else h)" using f by auto
  show "a_tnew a = t0 + a_hstep a" using f by auto
next
  assume s: "single_step ss K (f0, t0, y0, h) t1 = Some (Inr (st1, fl, K1))"
  show "step ss K (f0, t0, y0, h) t1 = (if fl then Some (Inr (st1, K1)) else step ss K1 st1 t1)"
    by (subst step.simps) (simp add: s)
  from single_step_accepted[OF s] obtain Kp hp prp b where
    b: "single_step_body ss f0 t0 y0 t1 Kp hp prp = Inr b" "a_accepted b"
      "st1 = (a_fnew b, a_tnew b, a_ynew b, a_h b)" "fl = a_t1_achieved b"
    by blast
  from single_step_body_Inr[OF b(1)] b(4)
  have c: "fl = (t0 + hp > t1)" "a_hstep b = (if fl then t1 - t0 else hp)"
    "a_tnew b = t0 + a_hstep b"
    by auto
  have st: "st1 = (a_fnew b, t0 + a_hstep b, a_ynew b, a_h b)"
    using b(3) c(3) by simp
  show "\<exists>Kp hp prp b. single_step_body ss f0 t0 y0 t1 Kp hp prp = Inr b \<and> a_accepted b
              \<and> fl = (t0 + hp > t1) \<and> a_hstep b = (if fl then t1 - t0 else hp)
              \<and> st1 = (a_fnew b, t0 + a_hstep b, a_ynew b, a_h b)"
    apply (rule exI[of _ Kp], rule exI[of _ hp], rule exI[of _ prp], rule exI[of _ b])
    apply (intro conjI)
    by (rule b(1) b(2) c(1) c(2) st)+
next
  assume l: "solve_loop ss K (f0, t0, y0, h) (t1 # rest) = Some (Inr rows)"
  show "\<exists>st2 K2 row rows'. step ss K (f0, t0, y0, h) t1 = Some (Inr (st2, K2))
           \<and> assign_row (length (s_y0 ss)) (fst (snd (snd st2))) = Inr row
           \<and> solve_loop ss K2 st2 rest = Some (Inr rows')
           \<and> rows = row # rows'"
    by (rule solve_loop_Cons[OF l])
next
  assume s: "solver_setup sv mem fcn tgrid y params = Inr ss \<and> solve ss = Some (Inr yt)"
  show "\<forall>j. 0 < j \<and> j < length tgrid \<longrightarrow>
           (\<exists>f t v Kp hp prp b. reach ss j f t v Kp hp prp
              \<and> single_step_body ss f t v (s_ts ss ! j) Kp hp prp = Inr b
              \<and> a_accepted b \<and> t + hp > s_ts ss ! j \<and> a_hstep b = s_ts ss ! j - t
              \<and> tensor_index yt j = Inr \<lparr>shape = shape y, data = a_ynew b\<rparr>)"
  proof (intro allI impI)
    fix j assume j: "0 < j \<and> j < length tgrid"
    from solve_entries_reach[OF conjunct1[OF s] conjunct2[OF s], rule_format, OF j]
    obtain f t v Kp hp prp b where
      b: "reach ss j f t v Kp hp prp" "single_step_body ss f t v (s_ts ss ! j) Kp hp prp = Inr b"
        "a_accepted b" "a_t1_achieved b"
        "tensor_index yt j = Inr \<lparr>shape = shape y, data = a_ynew b\<rparr>"
      by blast
    from single_step_body_Inr[OF b(2)] b(4)
    have "t + hp > s_ts ss ! j" "a_hstep b = s_ts ss ! j - t" by auto
    with b show "\<exists>f t v Kp hp prp b. reach ss j f t v Kp hp prp
              \<and> single_step_body ss f t v (s_ts ss ! j) Kp hp prp = Inr b
              \<and> a_accepted b \<and> t + hp > s_ts ss ! j \<and> a_hstep b = s_ts ss ! j - t
              \<and> tensor_index yt j = Inr \<lparr>shape = shape y, data = a_ynew b\<rparr>"
      by blast
  qed
qed

theorem interval_termination_witness:
  "single_step_body (lin_session [2, 1, 0]) [- 1] (- 1) [7 / 2] 0 [[- 1], [- 1], [- 1], [- 1]]
       10 False
     = Inr \<lparr>a_t1_achieved = True, a_hstep = 1, a_tnew = 0, a_ynew = [3], a_fnew = [0],
          a_K = [[- 1], [- (1 / 2)], [- (1 / 4)], [0]], a_errnorm = Fin 0, a_accepted = True,
          a_h = 10\<rparr>
   \<and> single_step (lin_session [2, 1, 0]) [[- 1], [- 1], [- 1], [- 1]] ([- 1], - 1, [7 / 2], 10) 0
     = Some (Inr (([0], 0, [3], 10), True, [[- 1], [- (1 / 2)], [- (1 / 4)], [0]]))
   \<and> solve_loop (lin_session [2, 1, 0]) [[- 1], [- 1], [- 1], [- 1]] ([- 1], - 1, [7 / 2], 10) [0]
     = Some (Inr [[3]])
   \<and> solver_setup (s_solver (lin_session [2, 1, 0])) (\<lambda>i j. 0) fcn_lin [2, 1, 0]
        \<lparr>shape = [1], data = [5]\<rparr> () = Inr (lin_session [2, 1, 0])
   \<and> solve (lin_session [2, 1, 0]) = Some (Inr \<lparr>shape = [3, 1], data = [5, 7 / 2, 3]\<rparr>)
   \<and> True = (- 1 + 10 > (0::real)) \<and> (1::real) = 0 - (- 1) \<and> (0::real) = - 1 + 1
   \<and> step (lin_session [2, 1, 0]) [[- 1], [- 1], [- 1], [- 1]] ([- 1], - 1, [7 / 2], 10) 0
     = Some (Inr (([0], 0, [3], 10), [[- 1], [- (1 / 2)], [- (1 / 4)], [0]]))
   \<and> (\<exists>Kp hp prp b. single_step_body (lin_session [2, 1, 0]) [- 1] (- 1) [7 / 2] 0 Kp hp prp = Inr b
         \<and> a_accepted b \<and> True = (- 1 + hp > 0) \<and> a_hstep b = 0 - (- 1)
         \<and> ([0], 0, [3], 10) = (a_fnew b, - 1 + a_hstep b, a_ynew b, a_h b))
   \<and> (\<exists>f t v Kp hp prp b. reach (lin_session [2, 1, 0]) 2 f t v Kp hp prp
         \<and> single_step_body (lin_session [2, 1, 0]) f t v (s_ts (lin_session [2, 1, 0]) ! 2)
              Kp hp prp = Inr b
         \<and> a_accepted b \<and> t + hp > s_ts (lin_session [2, 1, 0]) ! 2
         \<and> a_hstep b = s_ts (lin_session [2, 1, 0]) ! 2 - t
         \<and> tensor_index \<lparr>shape = [3, 1], data = [5, 7 / 2, 3]\<rparr> 2
             = Inr \<lparr>shape = [1], data = a_ynew b\<rparr>)"
proof -
  let ?ss = "lin_session [2, 1, 0]"
  let ?a = "\<lparr>a_t1_achieved = True, a_hstep = 1, a_tnew = 0, a_ynew = [3], a_fnew = [0],
          a_K = [[- 1], [- (1 / 2)], [- (1 / 4)], [0]], a_errnorm = Fin 0, a_accepted = True,
          a_h = 10\<rparr>"
  have b: "single_step_body ?ss [- 1] (- 1) [7 / 2] 0 [[- 1], [- 1], [- 1], [- 1]] 10 False
      = Inr ?a"
    by (rule lin_body_backward_3) simp
  have s: "single_step ?ss [[- 1], [- 1], [- 1], [- 1]] ([- 1], - 1, [7 / 2], 10) 0
     = Some (Inr (([0], 0, [3], 10), True, [[- 1], [- (1 / 2)], [- (1 / 4)], [0]]))"
    by (rule lin_single_step_backward_3) simp
  have l: "solve_loop ?ss [[- 1], [- 1], [- 1], [- 1]] ([- 1], - 1, [7 / 2], 10) [0]
      = Some (Inr [[3]])"
    by (simp add: lin_step_backward_3 lin_session_fields assign_row_def)
  have su: "solver_setup (s_solver ?ss) (\<lambda>i j. 0) fcn_lin [2, 1, 0]
        \<lparr>shape = [1], data = [5]\<rparr> () = Inr ?ss"
    by (rule lin_setup(2)) simp
  from interval_termination[of ?ss "[- 1]" "- 1" "[7 / 2]" 0 "[[- 1], [- 1], [- 1], [- 1]]" 10
      False ?a "([0], 0, [3], 10)" True "[[- 1], [- (1 / 2)], [- (1 / 4)], [0]]" "[]" "[[3]]"
      "s_solver ?ss" "\<lambda>i j. 0" fcn_lin "[2, 1, 0]" "\<lparr>shape = [1], data = [5]\<rparr>" "()"
      "\<lparr>shape = [3, 1], data = [5, 7 / 2, 3]\<rparr>"]
    b s l su lin_solve_backward
  show ?thesis
    by (simp del: split_paired_Ex)
qed

text \<open>
  The claim as stated fails where a proposal lands on the target without overshooting it:
  from \<open>t0 = 0\<close> with \<open>h = 1\<close> and the target \<open>t1 = 1\<close>, the attempt is accepted and its
  new time is \<open>1\<close>, but it is not marked terminal, and the loop of \<^verbatim>\<open>_step\<close> goes on with
  one more call from the returned state.
\<close>

theorem landing_on_target_counterexample:
  "single_step (lin_session [0, 1]) [[0], [0], [0], [0]] ([0], 0, [5], 1) 1
     = Some (Inr (([1], 1, [11 / 2], 10), False, [[0], [1 / 2], [3 / 4], [1]]))
   \<and> step (lin_session [0, 1]) [[0], [0], [0], [0]] ([0], 0, [5], 1) 1
     = step (lin_session [0, 1]) [[0], [1 / 2], [3 / 4], [1]] ([1], 1, [11 / 2], 10) 1"
  by (simp add: lin_single_step_forward_1 lin_step_forward_1 lin_step_forward_2)

subsection \<open>No growth after a rejection\<close>

text \<open>
  Claim C6. After a rejected attempt, the accepted sub-step that follows does not use a
  larger step than the rejected one, and the growth factor after a rejection is capped at
  1.0. The statement is for a solver made by \<^verbatim>\<open>__init__\<close> and for a proposal \<open>h\<close> that is
  not negative or overshoots the target (which holds for the first proposal
  \<^verbatim>\<open>ts[1] - ts[0]\<close> of the normalised grid and is kept by every rejection, first
  conjunct). For the attempt \<open>a2\<close> right after the rejected attempt \<open>a1\<close>: its step is at
  most the rejected step, and when it is accepted and not terminal the step size it
  proposes next is at most the step it used. For the whole search of \<^verbatim>\<open>_single_step\<close>:
  the accepted step \<open>t' - t0\<close> that ends it is at most the rejected step, and so is the
  returned step size \<open>h'\<close> when the accepted step was not terminal.
\<close>

theorem step_not_larger_after_rejection:
  assumes "init c atl rtl = Inr (s_solver ss)"
    and "single_step_body ss f0 t0 y0 t1 K h pr = Inr a1" and "\<not> a_accepted a1"
    and "0 \<le> h \<or> t1 < t0 + h"
  shows "(0 \<le> a_h a1 \<or> t1 < t0 + a_h a1)
     \<and> (single_step_body ss f0 t0 y0 t1 (a_K a1) (a_h a1) True = Inr a2 \<longrightarrow>
          a_hstep a2 \<le> a_hstep a1
          \<and> (a_accepted a2 \<and> \<not> a_t1_achieved a2 \<longrightarrow> a_h a2 \<le> a_hstep a2))
     \<and> (single_step_loop ss f0 t0 y0 t1 K h pr = Some (Inr ((f', t', y', h'), fl, K')) \<longrightarrow>
          t' - t0 \<le> a_hstep a1 \<and> (\<not> fl \<longrightarrow> h' \<le> a_hstep a1))"
proof -
  note r = rejected_then_next[OF assms(1,2,3,4)]
  have c1: "0 \<le> a_h a1 \<or> t1 < t0 + a_h a1" using r by blast
  have c2: "single_step_body ss f0 t0 y0 t1 (a_K a1) (a_h a1) True = Inr a2 \<longrightarrow>
          a_hstep a2 \<le> a_hstep a1
          \<and> (a_accepted a2 \<and> \<not> a_t1_achieved a2 \<longrightarrow> a_h a2 \<le> a_hstep a2)"
  proof
    assume b2: "single_step_body ss f0 t0 y0 t1 (a_K a1) (a_h a1) True = Inr a2"
    have "a_hstep a2 \<le> a_hstep a1" using r b2 by blast
    moreover have "a_accepted a2 \<and> \<not> a_t1_achieved a2 \<longrightarrow> a_h a2 \<le> a_hstep a2"
      using accepted_after_rejection_h[OF assms(1) b2 _ _ c1] by auto
    ultimately show "a_hstep a2 \<le> a_hstep a1
          \<and> (a_accepted a2 \<and> \<not> a_t1_achieved a2 \<longrightarrow> a_h a2 \<le> a_hstep a2)"
      by blast
  qed
  have c3: "single_step_loop ss f0 t0 y0 t1 K h pr = Some (Inr ((f', t', y', h'), fl, K')) \<longrightarrow>
          t' - t0 \<le> a_hstep a1 \<and> (\<not> fl \<longrightarrow> h' \<le> a_hstep a1)"
  proof
    assume l: "single_step_loop ss f0 t0 y0 t1 K h pr = Some (Inr ((f', t', y', h'), fl, K'))"
    from loop_step_bound[OF l assms(1,4)] assms(2,3)
    show "t' - t0 \<le> a_hstep a1 \<and> (\<not> fl \<longrightarrow> h' \<le> a_hstep a1)" by auto
  qed
  show ?thesis using c1 c2 c3 by blast
qed

theorem step_not_larger_after_rejection_witness:
  "init RK23 18 0 = Inr (s_solver jump_session)
   \<and> single_step_body jump_session [0] 0 [0] 2 [[0], [0], [0], [0]] 2 False
     = Inr \<lparr>a_t1_achieved = False, a_hstep = 2, a_tnew = 2, a_ynew = [0], a_fnew = [72],
            a_K = [[0], [0], [0], [72]], a_errnorm = Fin 1, a_accepted = False, a_h = 9 / 5\<rparr>
   \<and> single_step_body jump_session [0] 0 [0] 2 [[0], [0], [0], [72]] (9 / 5) True
     = Inr \<lparr>a_t1_achieved = False, a_hstep = 9 / 5, a_tnew = 9 / 5, a_ynew = [0],
            a_fnew = [0], a_K = [[0], [0], [0], [0]], a_errnorm = Fin 0, a_accepted = True,
            a_h = 9 / 5\<rparr>
   \<and> single_step_loop jump_session [0] 0 [0] 2 [[0], [0], [0], [0]] 2 False
     = Some (Inr (([0], 9 / 5, [0], 9 / 5), False, [[0], [0], [0], [0]]))
   \<and> ((0::real) \<le> 2 \<or> (2::real) < 0 + 2)
   \<and> ((9 / 5 :: real) \<le> 2) \<and> ((9 / 5 :: real) - 0 \<le> 2)"
  using step_not_larger_after_rejection[of RK23 18 0 jump_session "[0]" 0 "[0]" 2
      "[[0], [0], [0], [0]]" 2 False
      "\<lparr>a_t1_achieved = False, a_hstep = 2, a_tnew = 2, a_ynew = [0], a_fnew = [72],
            a_K = [[0], [0], [0], [72]], a_errnorm = Fin 1, a_accepted = False, a_h = 9 / 5\<rparr>"
      "\<lparr>a_t1_achieved = False, a_hstep = 9 / 5, a_tnew = 9 / 5, a_ynew = [0],
            a_fnew = [0], a_K = [[0], [0], [0], [0]], a_errnorm = Fin 0, a_accepted = True,
            a_h = 9 / 5\<rparr>"
      "[0]" "9 / 5" "[0]" "9 / 5" False "[[0], [0], [0], [0]]"]
    jump_init jump_body_first jump_body_second jump_single_step_first
  by (simp add: single_step_def)

subsection \<open>Decreasing time grids\<close>




subsection \<open>The shape of the result\<close>

text \<open>
  Claim C8, as amended. Whenever \<^verbatim>\<open>_rk_adaptive\<close> (construction, \<^verbatim>\<open>setup\<close>, \<^verbatim>\<open>solve\<close>)
  returns a tensor, the grid has at least two entries and the result has the shape
  \<open>(len(ts), *y0.shape)\<close>: it has one entry per entry of \<open>ts\<close>, each entry has the shape
  of \<open>y0\<close>, and entry 0 is \<open>y0\<close> itself.
\<close>

theorem solve_result_shape:
  assumes "rk_adaptive mem fcn tgrid y params c a r = Some (Inr yt)"
  shows "2 \<le> length tgrid \<and> wf_tensor y
     \<and> shape yt = length tgrid # shape y \<and> wf_tensor yt
     \<and> (\<forall>i < length tgrid. \<exists>yi. tensor_index yt i = Inr yi \<and> shape yi = shape y \<and> wf_tensor yi)
     \<and> tensor_index yt 0 = Inr y"
proof -
  from rk_adaptive_Inr[OF assms] obtain sv ss where
    su: "solver_setup sv mem fcn tgrid y params = Inr ss" and so: "solve ss = Some (Inr yt)"
    by blast
  from solve_setup_result[OF su so] obtain rows where
    r: "wf_tensor y" "length rows = length tgrid" "shape yt = length tgrid # shape y"
      "data yt = concat rows" "rows ! 0 = data y" "\<forall>r \<in> set rows. length r = numel (shape y)"
    by blast
  have len: "2 \<le> length tgrid" using solver_setup_Inr[OF su] by simp
  have sh: "shape yt = length rows # shape y" using r by simp
  have ti: "\<And>i. i < length tgrid \<Longrightarrow> tensor_index yt i = Inr \<lparr>shape = shape y, data = rows ! i\<rparr>"
    using tensor_index_rows[OF sh r(4) r(6)] r(2) by simp
  have wfyt: "wf_tensor yt"
    using concat_length[OF r(6)] r(2,3,4) by (simp add: wf_tensor_def numel_def)
  have each: "\<forall>i < length tgrid. \<exists>yi. tensor_index yt i = Inr yi \<and> shape yi = shape y \<and> wf_tensor yi"
  proof (intro allI impI)
    fix i assume i: "i < length tgrid"
    then have "rows ! i \<in> set rows" using r(2) by simp
    then have "length (rows ! i) = numel (shape y)" using r(6) by blast
    then show "\<exists>yi. tensor_index yt i = Inr yi \<and> shape yi = shape y \<and> wf_tensor yi"
      using ti[OF i] by (simp add: wf_tensor_def)
  qed
  have "0 < length tgrid" using len by linarith
  from ti[OF this] r(5) have "tensor_index yt 0 = Inr y" by simp
  then show ?thesis using len r(1,3) wfyt each by blast
qed

theorem solve_result_shape_witness:
  "rk_adaptive (\<lambda>i j. 0) fcn_lin [2, 1, 0] \<lparr>shape = [1], data = [5]\<rparr> () RK23 (1 / 10 ^ 8) (1 / 10 ^ 5)
     = Some (Inr \<lparr>shape = [3, 1], data = [5, 7 / 2, 3]\<rparr>)
   \<and> shape \<lparr>shape = [3, 1], data = [5, 7 / 2, 3 :: real]\<rparr> = length [2, 1, 0 :: real] # [1]
   \<and> tensor_index \<lparr>shape = [3, 1], data = [5, 7 / 2, 3]\<rparr> 0 = Inr \<lparr>shape = [1], data = [5]\<rparr>
   \<and> (\<exists>yi. tensor_index \<lparr>shape = [3, 1], data = [5, 7 / 2, 3]\<rparr> 2 = Inr yi
         \<and> shape yi = [1] \<and> wf_tensor yi)"
proof -
  have e: "rk_adaptive (\<lambda>i j. 0) fcn_lin [2, 1, 0] \<lparr>shape = [1], data = [5]\<rparr> () RK23
      (1 / 10 ^ 8) (1 / 10 ^ 5) = Some (Inr \<lparr>shape = [3, 1], data = [5, 7 / 2, 3]\<rparr>)"
    using lin_rk_adaptive[of "[2, 1, 0]"] lin_solve_backward by simp
  from solve_result_shape[OF e] have
    a: "shape \<lparr>shape = [3, 1], data = [5, 7 / 2, 3 :: real]\<rparr>
        = length [2, 1, 0 :: real] # shape \<lparr>shape = [1], data = [5 :: real]\<rparr>"
    and b: "\<forall>i < length [2, 1, 0 :: real]. \<exists>yi.
        tensor_index \<lparr>shape = [3, 1], data = [5, 7 / 2, 3]\<rparr> i = Inr yi
        \<and> shape yi = shape \<lparr>shape = [1], data = [5 :: real]\<rparr> \<and> wf_tensor yi"
    and c: "tensor_index \<lparr>shape = [3, 1], data = [5, 7 / 2, 3]\<rparr> 0
        = Inr \<lparr>shape = [1], data = [5]\<rparr>"
    by blast+
  from b[rule_format, of 2] have
    "\<exists>yi. tensor_index \<lparr>shape = [3, 1], data = [5, 7 / 2, 3]\<rparr> 2 = Inr yi
         \<and> shape yi = [1] \<and> wf_tensor yi"
    by simp
  with e a c show ?thesis by simp
qed

text \<open>
  The claim as stated, for every \<open>y0\<close> and every grid, fails where \<^verbatim>\<open>solve\<close> does not
  return: with \<open>atol = 0\<close>, the derivative \<open>-y\<close> and \<open>y0 = [0]\<close> the tolerance scale is zero,
  every attempt has the error norm \<^verbatim>\<open>nan\<close> and is rejected, and the search for the first
  step never ends.
\<close>

theorem solve_diverges_counterexample:
  "rk_adaptive (\<lambda>i j. 0) fcn_decay [0, 1] \<lparr>shape = [1], data = [0]\<rparr> () RK23 0 (1 / 10 ^ 5)
   = None"
proof -
  have st: "step decay_session [[0], [0], [0], [0]] ([0], 0, [0], 1) 1 = None"
    by (subst step.simps) (simp add: decay_single_step_diverges)
  have f: "s_ts decay_session = [0, 1]" "s_y0 decay_session = [0]"
    "s_K decay_session = [[0], [0], [0], [0]]" "s_func decay_session 0 [0] = Inr [0]"
    by (simp_all add: decay_session_eq eval_defs fcn_decay_def)
  have so: "solve decay_session = None"
    by (simp add: solve_def f st)
  have "rk_adaptive (\<lambda>i j. 0) fcn_decay [0, 1] \<lparr>shape = [1], data = [0]\<rparr> () RK23 0 (1 / 10 ^ 5)
    = solve decay_session"
    by (simp add: rk_adaptive_def decay_session_def init_def solver_setup_def RK23_def Let_def)
  with so show ?thesis by simp
qed

subsection \<open>Grids that are not monotonic\<close>

text \<open>
  Claim C9, as amended. The stepper does not check that the grid is monotonic. For a solver
  of class \<^verbatim>\<open>RK23\<close> or \<^verbatim>\<open>RK45\<close>, \<^verbatim>\<open>setup\<close> raises (\<^verbatim>\<open>IndexError\<close>) exactly when the
  grid has fewer than two entries; for every other grid, monotonic or not, it returns a
  session whose direction is decided by the sign of \<open>ts[1] - ts[0]\<close> alone. On that session
  \<^verbatim>\<open>solve\<close> raises no error either, whatever the order of the grid, when \<open>y0\<close> is not empty
  and the derivative function returns as many elements as \<open>y0\<close> has: it returns a result or
  it does not return.
\<close>

theorem grid_not_validated:
  assumes "init c a r = Inr sv" and "c = RK23 \<or> c = RK45"
  shows "(length tgrid < 2 \<longrightarrow> solver_setup sv mem fcn tgrid y params = Inl IndexError)
    \<and> (2 \<le> length tgrid \<longrightarrow>
         (\<exists>ss. solver_setup sv mem fcn tgrid y params = Inr ss
            \<and> s_ts ss = (if tgrid ! 1 - tgrid ! 0 < 0 then map uminus tgrid else tgrid)
            \<and> s_func ss = (if tgrid ! 1 - tgrid ! 0 < 0
                            then func_backward fcn (shape y) params
                            else func_forward fcn (shape y) params)
            \<and> (wf_tensor y \<and> 0 < numel (shape y)
                 \<and> (\<forall>t yy. shape yy = shape y \<and> wf_tensor yy \<longrightarrow>
                       length (data (fcn t yy params)) = numel (shape y)) \<longrightarrow>
               solve ss = None \<or> (\<exists>yt. solve ss = Some (Inr yt)))))"
proof -
  from init_Inr[OF assms(1)] have c: "cls sv = c" by auto
  have c1: "length tgrid < 2 \<longrightarrow> solver_setup sv mem fcn tgrid y params = Inl IndexError"
    by (simp add: solver_setup_def)
  have c2: "2 \<le> length tgrid \<longrightarrow>
         (\<exists>ss. solver_setup sv mem fcn tgrid y params = Inr ss
            \<and> s_ts ss = (if tgrid ! 1 - tgrid ! 0 < 0 then map uminus tgrid else tgrid)
            \<and> s_func ss = (if tgrid ! 1 - tgrid ! 0 < 0
                            then func_backward fcn (shape y) params
                            else func_forward fcn (shape y) params)
            \<and> (wf_tensor y \<and> 0 < numel (shape y)
                 \<and> (\<forall>t yy. shape yy = shape y \<and> wf_tensor yy \<longrightarrow>
                       length (data (fcn t yy params)) = numel (shape y)) \<longrightarrow>
               solve ss = None \<or> (\<exists>yt. solve ss = Some (Inr yt))))"
  proof
    assume l: "2 \<le> length tgrid"
    from assms(2) have "\<exists>ss. solver_setup sv mem fcn tgrid y params = Inr ss"
    proof
      assume "c = RK23"
      with c l show ?thesis by (simp add: solver_setup_def RK23_def Let_def)
    next
      assume "c = RK45"
      with c l show ?thesis by (simp add: solver_setup_def RK45_def Let_def)
    qed
    then obtain ss where su: "solver_setup sv mem fcn tgrid y params = Inr ss" by blast
    note s = solver_setup_Inr[OF su]
    have ts: "s_ts ss = (if tgrid ! 1 - tgrid ! 0 < 0 then map uminus tgrid else tgrid)"
      using s by simp
    have fn: "s_func ss = (if tgrid ! 1 - tgrid ! 0 < 0
                            then func_backward fcn (shape y) params
                            else func_forward fcn (shape y) params)"
      using s by simp
    have ne: "wf_tensor y \<and> 0 < numel (shape y)
                 \<and> (\<forall>t yy. shape yy = shape y \<and> wf_tensor yy \<longrightarrow>
                       length (data (fcn t yy params)) = numel (shape y)) \<longrightarrow>
               solve ss = None \<or> (\<exists>yt. solve ss = Some (Inr yt))"
      using solve_no_error[OF assms(1) assms(2) su] by blast
    show "\<exists>ss. solver_setup sv mem fcn tgrid y params = Inr ss
            \<and> s_ts ss = (if tgrid ! 1 - tgrid ! 0 < 0 then map uminus tgrid else tgrid)
            \<and> s_func ss = (if tgrid ! 1 - tgrid ! 0 < 0
                            then func_backward fcn (shape y) params
                            else func_forward fcn (shape y) params)
            \<and> (wf_tensor y \<and> 0 < numel (shape y)
                 \<and> (\<forall>t yy. shape yy = shape y \<and> wf_tensor yy \<longrightarrow>
                       length (data (fcn t yy params)) = numel (shape y)) \<longrightarrow>
               solve ss = None \<or> (\<exists>yt. solve ss = Some (Inr yt)))"
      apply (rule exI[of _ ss])
      apply (intro conjI)
      by (rule su ts fn ne)+
  qed
  show ?thesis by (intro conjI) (rule c1 c2)+
qed

theorem grid_not_validated_witness:
  "init RK23 (1 / 10 ^ 8) (1 / 10 ^ 5) = Inr (s_solver (lin_session [0, 1, 1 / 2]))
   \<and> (RK23 = RK23 \<or> RK23 = RK45)
   \<and> 2 \<le> length [0, 1, 1 / 2 :: real]
   \<and> wf_tensor \<lparr>shape = [1], data = [5]\<rparr> \<and> 0 < numel [1]
   \<and> solver_setup (s_solver (lin_session [0, 1, 1 / 2])) (\<lambda>i j. 0) fcn_lin [0, 1, 1 / 2]
        \<lparr>shape = [1], data = [5]\<rparr> () = Inr (lin_session [0, 1, 1 / 2])
   \<and> s_ts (lin_session [0, 1, 1 / 2]) = [0, 1, 1 / 2]
   \<and> (solve (lin_session [0, 1, 1 / 2]) = None
        \<or> (\<exists>yt. solve (lin_session [0, 1, 1 / 2]) = Some (Inr yt)))
   \<and> solve (lin_session [0, 1, 1 / 2])
       = Some (Inr \<lparr>shape = [3, 1], data = [5, 11 / 2, 41 / 8]\<rparr>)"
proof -
  let ?ss = "lin_session [0, 1, 1 / 2]"
  have i: "init RK23 (1 / 10 ^ 8) (1 / 10 ^ 5) = Inr (s_solver ?ss)"
    by (rule lin_setup(1)) simp
  have d: "RK23 = RK23 \<or> RK23 = RK45" by simp
  have su: "solver_setup (s_solver ?ss) (\<lambda>i j. 0) fcn_lin [0, 1, 1 / 2]
        \<lparr>shape = [1], data = [5]\<rparr> () = Inr ?ss"
    by (rule lin_setup(2)) simp
  have l: "2 \<le> length [0, 1, 1 / 2 :: real]" by simp
  have w: "wf_tensor \<lparr>shape = [1], data = [5]\<rparr>" "0 < numel [1]"
    by (simp_all add: wf_tensor_def numel_def)
  have f: "\<forall>t yy. shape yy = shape \<lparr>shape = [1], data = [5 :: real]\<rparr> \<and> wf_tensor yy \<longrightarrow>
      length (data (fcn_lin t yy ())) = numel (shape \<lparr>shape = [1], data = [5 :: real]\<rparr>)"
    by (simp add: fcn_lin_def wf_tensor_def)
  from grid_not_validated[OF i d, of "[0, 1, 1 / 2]" "\<lambda>i j. 0" fcn_lin
      "\<lparr>shape = [1], data = [5]\<rparr>" "()"] l su w f
  have c: "s_ts ?ss = [0, 1, 1 / 2]
      \<and> (solve ?ss = None \<or> (\<exists>yt. solve ?ss = Some (Inr yt)))"
    by simp
  show ?thesis
    apply (intro conjI)
    by (rule i d l w su c[THEN conjunct1] c[THEN conjunct2] lin_solve_forward)+
qed

text \<open>
  The claim as stated fails: the grid \<open>[0, 1, 1/2]\<close> rises and then falls, and the stepper
  raises no error for it but returns a result, stepping backward from 1 to 1/2.
\<close>

theorem non_monotonic_grid_counterexample:
  "[0, 1, 1 / 2] ! 0 < [0, 1, 1 / 2 :: real] ! 1 \<and> [0, 1, 1 / 2] ! 2 < [0, 1, 1 / 2 :: real] ! 1
   \<and> rk_adaptive (\<lambda>i j. 0) fcn_lin [0, 1, 1 / 2] \<lparr>shape = [1], data = [5]\<rparr> () RK23
        (1 / 10 ^ 8) (1 / 10 ^ 5)
      = Some (Inr \<lparr>shape = [3, 1], data = [5, 11 / 2, 41 / 8]\<rparr>)"
  using lin_rk_adaptive[of "[0, 1, 1 / 2]"] lin_solve_forward by simp

end
